theory Spec2Isabelle
  imports Main "HOL-Library.Word"
begin

unbundle bit_operations_syntax

section \<open>Machine integers, byte strings and limb vectors\<close>

type_synonym uint8_t = "8 word"
type_synonym uint32_t = "32 word"

text \<open>The field prime \<open>p = 2\<^sup>2\<^sup>5\<^sup>5 - 19\<close>.\<close>

definition p25519 :: nat where
  "p25519 = 2 ^ 255 - 19"

text \<open>A byte string read as a little-endian natural number, and the inverse direction
  for a fixed number of bytes.\<close>

primrec le_bytes_val :: "uint8_t list \<Rightarrow> nat" where
  "le_bytes_val [] = 0"
| "le_bytes_val (b # bs) = unat b + 256 * le_bytes_val bs"

primrec bytes_of_nat :: "nat \<Rightarrow> nat \<Rightarrow> uint8_t list" where
  "bytes_of_nat 0 n = []"
| "bytes_of_nat (Suc k) n = of_nat (n mod 256) # bytes_of_nat k (n div 256)"

text \<open>The ten limbs of \<open>uint32_t v[10]\<close>: limb \<open>i\<close> has weight \<open>2 ^ \<lceil>25.5 * i\<rceil>\<close>
  and, when tight, alternately 26 and 25 bits.\<close>

definition limb_pos :: "nat list" where
  "limb_pos = [0, 26, 51, 77, 102, 128, 153, 179, 204, 230]"

definition limb_width :: "nat list" where
  "limb_width = [26, 25, 26, 25, 26, 25, 26, 25, 26, 25]"

definition limbs_val :: "uint32_t list \<Rightarrow> nat" where
  "limbs_val xs = sum_list (map2 (\<lambda>e x. unat x * 2 ^ e) limb_pos xs)"

definition limbs_of_nat :: "nat \<Rightarrow> uint32_t list" where
  "limbs_of_nat n = map2 (\<lambda>e w. of_nat ((n div 2 ^ e) mod 2 ^ w)) limb_pos limb_width"

definition tight_limbs :: "uint32_t list \<Rightarrow> bool" where
  "tight_limbs xs = list_all2 (\<lambda>w x. unat x < 2 ^ w) limb_width xs"

section \<open>The field primitives of \<open>curve25519_32.h\<close>\<close>

text \<open>Modelled from the spec: \<open>fiat_25519_from_bytes\<close> (header \<open>curve25519_32.h\<close> is not
  part of the sources). The spec's \<open>from_bytes_strict\<close> row: 32 bytes with the top bit zero
  give the tight element whose value is the little-endian number.\<close>

definition fiat_25519_from_bytes :: "uint8_t list \<Rightarrow> uint32_t list" where
  "fiat_25519_from_bytes s = limbs_of_nat (le_bytes_val s)"

text \<open>Modelled from the spec: \<open>fiat_25519_to_bytes\<close>. The spec's \<open>to_bytes\<close> row: 32 bytes,
  little-endian, canonical, fully reduced modulo \<open>p\<close>.\<close>

definition fiat_25519_to_bytes :: "uint32_t list \<Rightarrow> uint8_t list" where
  "fiat_25519_to_bytes f = bytes_of_nat 32 (limbs_val f mod p25519)"

text \<open>Modelled from the spec: \<open>fiat_25519_add\<close>, limb-wise addition of 32-bit limbs.\<close>

definition fiat_25519_add :: "uint32_t list \<Rightarrow> uint32_t list \<Rightarrow> uint32_t list" where
  "fiat_25519_add f g = map2 (\<lambda>a b. a + b) f g"

text \<open>The limbs of \<open>2 * p\<close>.\<close>

definition two_p_limbs :: "uint32_t list" where
  "two_p_limbs = [0x7ffffda, 0x3fffffe, 0x7fffffe, 0x3fffffe, 0x7fffffe,
                  0x3fffffe, 0x7fffffe, 0x3fffffe, 0x7fffffe, 0x3fffffe]"

text \<open>Modelled from the spec: \<open>fiat_25519_sub\<close>, limb-wise, adding \<open>2 * p\<close> first to stay
  non-negative.\<close>

definition fiat_25519_sub :: "uint32_t list \<Rightarrow> uint32_t list \<Rightarrow> uint32_t list" where
  "fiat_25519_sub f g = map2 (\<lambda>(c, a) b. (c + a) - b) (zip two_p_limbs f) g"

text \<open>Modelled from the spec: \<open>fiat_25519_opp\<close>, the negation \<open>2 * p - x\<close>, limb-wise.\<close>

definition fiat_25519_opp :: "uint32_t list \<Rightarrow> uint32_t list" where
  "fiat_25519_opp f = map2 (\<lambda>c a. c - a) two_p_limbs f"

text \<open>Modelled from the spec: \<open>fiat_25519_carry\<close>, loose to tight; propagates the carries and
  reduces modulo \<open>p\<close>. The model returns the tight limbs of the reduced value.\<close>

definition fiat_25519_carry :: "uint32_t list \<Rightarrow> uint32_t list" where
  "fiat_25519_carry f = limbs_of_nat (limbs_val f mod p25519)"

text \<open>Modelled from the spec: \<open>fiat_25519_carry_mul\<close>, the product modulo \<open>p\<close> as a tight
  element.\<close>

definition fiat_25519_carry_mul :: "uint32_t list \<Rightarrow> uint32_t list \<Rightarrow> uint32_t list" where
  "fiat_25519_carry_mul f g = limbs_of_nat ((limbs_val f * limbs_val g) mod p25519)"

text \<open>Modelled from the spec: \<open>fiat_25519_carry_square\<close>, the square modulo \<open>p\<close> as a tight
  element.\<close>

definition fiat_25519_carry_square :: "uint32_t list \<Rightarrow> uint32_t list" where
  "fiat_25519_carry_square f = limbs_of_nat ((limbs_val f * limbs_val f) mod p25519)"

section \<open>Field elements (\<open>ed25519.c\<close>)\<close>

text \<open>\<open>typedef struct fe { uint32_t v[10]; } fe;\<close> and the loose variant.\<close>

datatype fe = Fe (fe_v: "uint32_t list")

datatype fe_loose = Fe_Loose (fe_loose_v: "uint32_t list")

definition FE_NUM_LIMBS :: nat where
  "FE_NUM_LIMBS = 10"

definition fe_0 :: fe where
  "fe_0 = Fe (replicate 10 0)"

definition fe_loose_0 :: fe_loose where
  "fe_loose_0 = Fe_Loose (replicate 10 0)"

definition fe_1 :: fe where
  "fe_1 = Fe ((replicate 10 0)[0 := 1])"

definition fe_loose_1 :: fe_loose where
  "fe_loose_1 = Fe_Loose ((replicate 10 0)[0 := 1])"

definition fe_copy :: "fe \<Rightarrow> fe" where
  "fe_copy f = f"

definition fe_copy_lt :: "fe \<Rightarrow> fe_loose" where
  "fe_copy_lt f = Fe_Loose (fe_v f)"

text \<open>\<open>fe_frombytes_strict\<close> asserts that the top bit is clear; a failed assertion aborts
  the program, which is the result \<open>None\<close>.\<close>

definition fe_frombytes_strict :: "uint8_t list \<Rightarrow> fe option" where
  "fe_frombytes_strict s =
     (if (s ! 31) AND 0x80 = 0 then Some (Fe (fiat_25519_from_bytes s)) else None)"

definition fe_frombytes :: "uint8_t list \<Rightarrow> fe option" where
  "fe_frombytes s =
     (let s_copy = s;
          s_copy = s_copy[31 := (s_copy ! 31) AND 0x7f]
      in fe_frombytes_strict s_copy)"

definition fe_tobytes :: "fe \<Rightarrow> uint8_t list" where
  "fe_tobytes f = fiat_25519_to_bytes (fe_v f)"

section \<open>Byte strings and limbs: basic facts\<close>

lemma length_bytes_of_nat [simp]: "length (bytes_of_nat k n) = k"
  by (induction k arbitrary: n) simp_all

lemma le_bytes_val_bytes_of_nat: "le_bytes_val (bytes_of_nat k n) = n mod 256 ^ k"
proof (induction k arbitrary: n)
  case 0
  show ?case by simp
next
  case (Suc k)
  have "unat (of_nat (n mod 256) :: uint8_t) = n mod 256"
    by (simp add: unat_of_nat)
  then show ?case
    using Suc [of "n div 256"] by (simp add: mod_mult2_eq)
qed

lemma bytes_of_nat_le_bytes_val: "bytes_of_nat (length s) (le_bytes_val s) = s"
proof (induction s)
  case Nil
  show ?case by simp
next
  case (Cons b s)
  have b: "unat b < 256"
    using unsigned_less [of b, where ?'a = nat] by simp
  then have "(unat b + 256 * le_bytes_val s) mod 256 = unat b"
    and "(unat b + 256 * le_bytes_val s) div 256 = le_bytes_val s"
    by simp_all
  then show ?case
    using Cons by simp
qed

lemma le_bytes_val_bound: "le_bytes_val s < 256 ^ length s"
proof (induction s)
  case Nil
  show ?case by simp
next
  case (Cons b s)
  have b: "unat b < 256"
    using unsigned_less [of b, where ?'a = nat] by simp
  have "unat b + 256 * le_bytes_val s < 256 + 256 * le_bytes_val s"
    using b by simp
  also have "\<dots> = 256 * (le_bytes_val s + 1)"
    by simp
  also have "\<dots> \<le> 256 * 256 ^ length s"
    using Cons by (intro mult_le_mono2) simp
  finally show ?case by simp
qed

lemma le_bytes_val_append:
  "le_bytes_val (xs @ ys) = le_bytes_val xs + 256 ^ length xs * le_bytes_val ys"
  by (induction xs) (simp_all add: algebra_simps)

lemma length_limbs_of_nat [simp]: "length (limbs_of_nat n) = 10"
  by (simp add: limbs_of_nat_def limb_pos_def limb_width_def)

lemma unat_of_nat_limb:
  assumes "c \<le> 4294967296" and "0 < c"
  shows "unat (of_nat (m mod c) :: uint32_t) = m mod c"
proof -
  have "m mod c < c" using assms by simp
  also have "c \<le> 2 ^ 32" using assms by simp
  finally have "m mod c < 2 ^ 32" .
  then show ?thesis by (simp add: unat_of_nat take_bit_nat_eq_self)
qed

lemma split_mod: "(n::nat) mod 2 ^ (e + w) = n mod 2 ^ e + 2 ^ e * (n div 2 ^ e mod 2 ^ w)"
  by (simp add: power_add mod_mult2_eq)

lemma limbs_val_limbs_of_nat: "limbs_val (limbs_of_nat n) = n mod 2 ^ 255"
proof -
  have "n mod 2 ^ 255 = n mod 2 ^ (0 + 26 + 25 + 26 + 25 + 26 + 25 + 26 + 25 + 26 + 25)"
    by simp
  also have "\<dots> = limbs_val (limbs_of_nat n)"
    unfolding split_mod
    by (simp add: limbs_val_def limbs_of_nat_def limb_pos_def limb_width_def unat_of_nat_limb)
  finally show ?thesis by simp
qed

lemma tight_limbs_of_nat: "tight_limbs (limbs_of_nat n)"
  by (simp add: tight_limbs_def limbs_of_nat_def limb_pos_def limb_width_def unat_of_nat_limb)

lemma le_bytes_val_upd_last:
  assumes "length s = Suc k"
  shows "le_bytes_val (s[k := b]) = le_bytes_val (take k s) + 256 ^ k * unat b"
proof -
  have "s[k := b] = take k s @ [b]"
    using assms by (simp add: upd_conv_take_nth_drop)
  then show ?thesis
    using assms by (simp add: le_bytes_val_append)
qed

lemma le_bytes_val_split_last:
  assumes "length s = Suc k"
  shows "le_bytes_val s = le_bytes_val (take k s) + 256 ^ k * unat (s ! k)"
  using le_bytes_val_upd_last [OF assms, of "s ! k"] by simp

lemma unat_and_7f: "unat ((b::uint8_t) AND 0x7f) = unat b mod 128"
proof -
  have "b AND 0x7f = take_bit 7 b"
    by (simp add: take_bit_eq_mask mask_eq_exp_minus_1)
  then show ?thesis
    by (simp add: take_bit_eq_mod unat_mod)
qed

lemma and_80_zero_iff: "((b::uint8_t) AND 0x80 = 0) = (unat b < 128)"
proof -
  have b: "unat b < 256"
    using unsigned_less [of b, where ?'a = nat] by simp
  have "b AND 0x80 = b AND 2 ^ 7" by simp
  then have "(b AND 0x80 = 0) = (\<not> bit b 7)"
    by (simp only: and_exp_eq_0_iff_not_bit)
  also have "bit b 7 = bit (unat b) 7"
    by (simp add: bit_unsigned_iff)
  also have "\<dots> = odd (unat b div 128)"
    by (simp add: bit_iff_odd)
  also have "(\<not> odd (unat b div 128)) = (unat b < 128)"
  proof (cases "unat b < 128")
    case True
    then show ?thesis by simp
  next
    case False
    then have "unat b div 128 = 1"
      using b by (intro div_nat_eqI) simp_all
    then show ?thesis using False by simp
  qed
  finally show ?thesis .
qed

lemma le_bytes_val_masked:
  assumes "length s = 32"
  shows "le_bytes_val (s[31 := (s ! 31) AND 0x7f]) = le_bytes_val s mod 2 ^ 255"
proof -
  have len: "length s = Suc 31" using assms by simp
  have lo: "le_bytes_val (take 31 s) < 2 ^ 248"
    using le_bytes_val_bound [of "take 31 s"] assms by simp
  have "le_bytes_val s mod 2 ^ (248 + 7) =
        le_bytes_val s mod 2 ^ 248 + 2 ^ 248 * (le_bytes_val s div 2 ^ 248 mod 2 ^ 7)"
    by (rule split_mod)
  moreover have "le_bytes_val s = le_bytes_val (take 31 s) + 2 ^ 248 * unat (s ! 31)"
    using le_bytes_val_split_last [OF len] by simp
  ultimately have "le_bytes_val s mod 2 ^ 255 =
        le_bytes_val (take 31 s) + 2 ^ 248 * (unat (s ! 31) mod 128)"
    using lo by simp
  then show ?thesis
    using le_bytes_val_upd_last [OF len, of "(s ! 31) AND 0x7f"] by (simp add: unat_and_7f)
qed

section \<open>Field element decoding\<close>

text \<open>
  Claim C7 (from_bytes totality). For every 32-byte input \<open>s\<close>, \<open>fe_frombytes s\<close> is
  \<open>fe_frombytes_strict\<close> applied to \<open>s\<close> with byte 31 masked by \<open>0x7f\<close>; the assertion of
  \<open>fe_frombytes_strict\<close> holds there, so a field element is returned, and it is the tight
  element whose value is the little-endian value of \<open>s\<close> with bit 255 cleared.
\<close>

theorem fe_frombytes_total:
  assumes "length s = 32"
  shows "fe_frombytes s = fe_frombytes_strict (s[31 := (s ! 31) AND 0x7f])
    \<and> (\<exists>h. fe_frombytes s = Some h \<and> tight_limbs (fe_v h)
          \<and> limbs_val (fe_v h) = le_bytes_val s mod 2 ^ 255)"
proof -
  let ?t = "s[31 := (s ! 31) AND 0x7f]"
  have eq: "fe_frombytes s = fe_frombytes_strict ?t"
    by (simp add: fe_frombytes_def Let_def)
  have "unat ((s ! 31) AND 0x7f) < 128"
    by (simp add: unat_and_7f)
  then have top: "(?t ! 31) AND 0x80 = 0"
    using assms by (simp add: and_80_zero_iff)
  have "le_bytes_val ?t = le_bytes_val s mod 2 ^ 255"
    by (rule le_bytes_val_masked [OF assms])
  then have "limbs_val (fiat_25519_from_bytes ?t) = le_bytes_val s mod 2 ^ 255"
    by (simp add: fiat_25519_from_bytes_def limbs_val_limbs_of_nat)
  then show ?thesis
    using eq top by (simp add: fe_frombytes_strict_def fiat_25519_from_bytes_def tight_limbs_of_nat)
qed

theorem fe_frombytes_total_witness:
  "length (replicate 32 (0xff :: uint8_t)) = 32
   \<and> fe_frombytes (replicate 32 0xff)
       = fe_frombytes_strict ((replicate 32 0xff)[31 := (replicate 32 (0xff :: uint8_t) ! 31) AND 0x7f])
   \<and> (\<exists>h. fe_frombytes (replicate 32 0xff) = Some h \<and> tight_limbs (fe_v h)
          \<and> limbs_val (fe_v h) = le_bytes_val (replicate 32 0xff) mod 2 ^ 255)"
proof (rule conjI)
  show len: "length (replicate 32 (0xff :: uint8_t)) = 32"
    by simp
  show "fe_frombytes (replicate 32 0xff)
       = fe_frombytes_strict ((replicate 32 0xff)[31 := (replicate 32 (0xff :: uint8_t) ! 31) AND 0x7f])
   \<and> (\<exists>h. fe_frombytes (replicate 32 0xff) = Some h \<and> tight_limbs (fe_v h)
          \<and> limbs_val (fe_v h) = le_bytes_val (replicate 32 0xff) mod 2 ^ 255)"
    by (rule fe_frombytes_total [OF len])
qed

section \<open>Serialization round trip\<close>

definition enc_p25519 :: "uint8_t list" where
  "enc_p25519 =
    [0xed, 0xff, 0xff, 0xff, 0xff, 0xff, 0xff, 0xff, 0xff, 0xff, 0xff, 0xff, 0xff, 0xff, 0xff, 0xff,
     0xff, 0xff, 0xff, 0xff, 0xff, 0xff, 0xff, 0xff, 0xff, 0xff, 0xff, 0xff, 0xff, 0xff, 0xff, 0x7f]"

lemma top_bit_clear_iff:
  assumes "length s = 32"
  shows "((s ! 31) AND 0x80 = 0) = (le_bytes_val s < 2 ^ 255)"
proof -
  have len: "length s = Suc 31" using assms by simp
  have lo: "le_bytes_val (take 31 s) < 2 ^ 248"
    using le_bytes_val_bound [of "take 31 s"] assms by simp
  have v: "le_bytes_val s = le_bytes_val (take 31 s) + 2 ^ 248 * unat (s ! 31)"
    using le_bytes_val_split_last [OF len] by simp
  have "(le_bytes_val s < 2 ^ 255) = (unat (s ! 31) < 128)"
  proof
    assume "le_bytes_val s < 2 ^ 255"
    then have "2 ^ 248 * unat (s ! 31) < (2 ^ 248 * 128 :: nat)"
      using v by simp
    then show "unat (s ! 31) < 128"
      by (simp only: mult_less_cancel1)
  next
    assume "unat (s ! 31) < 128"
    then have "unat (s ! 31) + 1 \<le> 128" by simp
    then have "2 ^ 248 * (unat (s ! 31) + 1) \<le> (2 ^ 248 * 128 :: nat)"
      by (rule mult_le_mono2)
    then show "le_bytes_val s < 2 ^ 255"
      using v lo by simp
  qed
  then show ?thesis
    by (simp add: and_80_zero_iff)
qed

lemma fe_roundtrip_reduces:
  assumes "length s = 32" and "(s ! 31) AND 0x80 = 0"
  shows "map_option fe_tobytes (fe_frombytes_strict s)
         = Some (bytes_of_nat 32 (le_bytes_val s mod p25519))"
proof -
  have "le_bytes_val s < 2 ^ 255"
    using assms top_bit_clear_iff by simp
  then have "limbs_val (limbs_of_nat (le_bytes_val s)) = le_bytes_val s"
    by (simp add: limbs_val_limbs_of_nat)
  then show ?thesis
    using assms(2)
    by (simp add: fe_frombytes_strict_def fe_tobytes_def fiat_25519_to_bytes_def
        fiat_25519_from_bytes_def)
qed

lemma le_bytes_val_enc_p25519: "le_bytes_val enc_p25519 = p25519"
  by (simp add: enc_p25519_def p25519_def)

text \<open>
  Claim C5 (field serialization round trip), as stated, fails: the 32-byte string encoding
  \<open>p\<close> itself has its top bit clear, and \<open>fe_tobytes\<close> reduces it to the encoding of 0.
\<close>

theorem fe_roundtrip_counterexample:
  "length enc_p25519 = 32 \<and> (enc_p25519 ! 31) AND 0x80 = 0
   \<and> map_option fe_tobytes (fe_frombytes_strict enc_p25519) \<noteq> Some enc_p25519"
proof -
  have len: "length enc_p25519 = 32"
    by (simp add: enc_p25519_def)
  have top: "(enc_p25519 ! 31) AND 0x80 = 0"
    by (simp add: enc_p25519_def)
  have "map_option fe_tobytes (fe_frombytes_strict enc_p25519) = Some (bytes_of_nat 32 0)"
    using fe_roundtrip_reduces [OF len top] by (simp add: le_bytes_val_enc_p25519)
  moreover have "bytes_of_nat (Suc k) 0 \<noteq> 0xed # bs" for k bs
    by simp
  from this [of 31] have "bytes_of_nat 32 0 \<noteq> enc_p25519"
    by (simp add: enc_p25519_def)
  ultimately have "map_option fe_tobytes (fe_frombytes_strict enc_p25519) \<noteq> Some enc_p25519"
    by (simp only: option.inject) blast
  then show ?thesis
    using len top by blast
qed

text \<open>
  Claim C5, amended: for every 32-byte string \<open>s\<close> whose little-endian value is below \<open>p\<close>
  (a canonical encoding; its top bit is then zero), \<open>fe_tobytes (fe_frombytes_strict s) = s\<close>.
\<close>

theorem fe_roundtrip_canonical:
  assumes "length s = 32" and "le_bytes_val s < p25519"
  shows "(s ! 31) AND 0x80 = 0
         \<and> map_option fe_tobytes (fe_frombytes_strict s) = Some s"
proof -
  have "le_bytes_val s < 2 ^ 255"
    using assms(2) by (simp add: p25519_def)
  then have top: "(s ! 31) AND 0x80 = 0"
    using assms(1) top_bit_clear_iff by simp
  have "bytes_of_nat 32 (le_bytes_val s) = s"
    using bytes_of_nat_le_bytes_val [of s] assms(1) by simp
  then show ?thesis
    using fe_roundtrip_reduces [OF assms(1) top] assms(2) top by simp
qed

theorem fe_roundtrip_canonical_witness:
  "length (replicate 32 (0 :: uint8_t)) = 32 \<and> le_bytes_val (replicate 32 0) < p25519
   \<and> (replicate 32 (0 :: uint8_t) ! 31) AND 0x80 = 0
   \<and> map_option fe_tobytes (fe_frombytes_strict (replicate 32 0)) = Some (replicate 32 0)"
proof -
  have len: "length (replicate 32 (0 :: uint8_t)) = 32"
    by simp
  have "le_bytes_val (replicate n 0) = 0" for n
    by (induction n) simp_all
  then have val: "le_bytes_val (replicate 32 0) < p25519"
    by (simp add: p25519_def)
  show ?thesis
    using len val fe_roundtrip_canonical [OF len val] by blast
qed

section \<open>Field operations (\<open>ed25519.c\<close>)\<close>

text \<open>The constants \<open>d\<close>, \<open>sqrtm1\<close> and \<open>d2\<close> of \<open>ed25519.c\<close>.\<close>

definition ed_d :: fe where
  "ed_d = Fe [56195235, 13857412, 51736253, 6949390, 114729, 24766616, 60832955, 30306712,
              48412415, 21499315]"

definition ed_sqrtm1 :: fe where
  "ed_sqrtm1 = Fe [34513072, 25610706, 9377949, 3500415, 12389472, 33281959, 41962654,
                   31548777, 326685, 11406482]"

definition ed_d2 :: fe where
  "ed_d2 = Fe [45281625, 27714825, 36363642, 13898781, 229458, 15978800, 54557047,
               27058993, 29715967, 9444199]"

definition fe_add :: "fe \<Rightarrow> fe \<Rightarrow> fe_loose" where
  "fe_add f g = Fe_Loose (fiat_25519_add (fe_v f) (fe_v g))"

definition fe_sub :: "fe \<Rightarrow> fe \<Rightarrow> fe_loose" where
  "fe_sub f g = Fe_Loose (fiat_25519_sub (fe_v f) (fe_v g))"

definition fe_carry :: "fe_loose \<Rightarrow> fe" where
  "fe_carry f = Fe (fiat_25519_carry (fe_loose_v f))"

definition fe_mul_impl :: "uint32_t list \<Rightarrow> uint32_t list \<Rightarrow> uint32_t list" where
  "fe_mul_impl in1 in2 = fiat_25519_carry_mul in1 in2"

definition fe_mul_ltt :: "fe \<Rightarrow> fe \<Rightarrow> fe_loose" where
  "fe_mul_ltt f g = Fe_Loose (fe_mul_impl (fe_v f) (fe_v g))"

definition fe_mul_llt :: "fe_loose \<Rightarrow> fe \<Rightarrow> fe_loose" where
  "fe_mul_llt f g = Fe_Loose (fe_mul_impl (fe_loose_v f) (fe_v g))"

definition fe_mul_ttt :: "fe \<Rightarrow> fe \<Rightarrow> fe" where
  "fe_mul_ttt f g = Fe (fe_mul_impl (fe_v f) (fe_v g))"

definition fe_mul_tlt :: "fe_loose \<Rightarrow> fe \<Rightarrow> fe" where
  "fe_mul_tlt f g = Fe (fe_mul_impl (fe_loose_v f) (fe_v g))"

definition fe_mul_ttl :: "fe \<Rightarrow> fe_loose \<Rightarrow> fe" where
  "fe_mul_ttl f g = Fe (fe_mul_impl (fe_v f) (fe_loose_v g))"

definition fe_mul_tll :: "fe_loose \<Rightarrow> fe_loose \<Rightarrow> fe" where
  "fe_mul_tll f g = Fe (fe_mul_impl (fe_loose_v f) (fe_loose_v g))"

definition fe_sq_tl :: "fe_loose \<Rightarrow> fe" where
  "fe_sq_tl f = Fe (fiat_25519_carry_square (fe_loose_v f))"

definition fe_sq_tt :: "fe \<Rightarrow> fe" where
  "fe_sq_tt f = Fe (fiat_25519_carry_square (fe_v f))"

definition fe_neg :: "fe \<Rightarrow> fe_loose" where
  "fe_neg f = Fe_Loose (fiat_25519_opp (fe_v f))"

text \<open>The loops \<open>for (i = 1; i < n; ++i) fe_sq_tt(&t, &t);\<close> of the two addition chains,
  with the counter \<open>i\<close> and the bound \<open>n\<close>.\<close>

function sq_loop :: "nat \<Rightarrow> nat \<Rightarrow> fe \<Rightarrow> fe" where
  "sq_loop i n t = (if i < n then sq_loop (i + 1) n (fe_sq_tt t) else t)"
  by pat_completeness auto
termination
  by (relation "measure (\<lambda>(i, n, t). n - i)") auto

declare sq_loop.simps [simp del]

definition fe_loose_invert :: "fe_loose \<Rightarrow> fe" where
  "fe_loose_invert z =
     (let t0 = fe_sq_tl z;
          t1 = fe_sq_tt t0;
          t1 = sq_loop 1 2 t1;
          t1 = fe_mul_tlt z t1;
          t0 = fe_mul_ttt t0 t1;
          t2 = fe_sq_tt t0;
          t1 = fe_mul_ttt t1 t2;
          t2 = fe_sq_tt t1;
          t2 = sq_loop 1 5 t2;
          t1 = fe_mul_ttt t2 t1;
          t2 = fe_sq_tt t1;
          t2 = sq_loop 1 10 t2;
          t2 = fe_mul_ttt t2 t1;
          t3 = fe_sq_tt t2;
          t3 = sq_loop 1 20 t3;
          t2 = fe_mul_ttt t3 t2;
          t2 = fe_sq_tt t2;
          t2 = sq_loop 1 10 t2;
          t1 = fe_mul_ttt t2 t1;
          t2 = fe_sq_tt t1;
          t2 = sq_loop 1 50 t2;
          t2 = fe_mul_ttt t2 t1;
          t3 = fe_sq_tt t2;
          t3 = sq_loop 1 100 t3;
          t2 = fe_mul_ttt t3 t2;
          t2 = fe_sq_tt t2;
          t2 = sq_loop 1 50 t2;
          t1 = fe_mul_ttt t2 t1;
          t1 = fe_sq_tt t1;
          t1 = sq_loop 1 5 t1
      in fe_mul_ttt t1 t0)"

definition fe_invert :: "fe \<Rightarrow> fe" where
  "fe_invert z = (let l = fe_copy_lt z in fe_loose_invert l)"

text \<open>\<open>memcmp\<close> over the first \<open>n\<close> bytes: zero when they agree, else the difference of the
  first differing pair. Both buffers of the source hold \<open>n\<close> bytes; a shorter list ends the
  comparison.\<close>

fun memcmp :: "uint8_t list \<Rightarrow> uint8_t list \<Rightarrow> nat \<Rightarrow> int" where
  "memcmp (a # as) (b # bs) (Suc n) = (if a = b then memcmp as bs n else uint a - uint b)"
| "memcmp _ _ _ = 0"

definition fe_isnonzero :: "fe_loose \<Rightarrow> int" where
  "fe_isnonzero f =
     (let tight = fe_carry f;
          s = fe_tobytes tight;
          zero = replicate 32 0
      in if memcmp s zero 32 \<noteq> 0 then 1 else 0)"

definition fe_isnegative :: "fe \<Rightarrow> int" where
  "fe_isnegative f = (let s = fe_tobytes f in uint ((s ! 0) AND 1))"

definition fe_sq2_tt :: "fe \<Rightarrow> fe" where
  "fe_sq2_tt f = (let h = fe_sq_tt f; tmp = fe_add h h in fe_carry tmp)"

definition fe_pow22523 :: "fe \<Rightarrow> fe" where
  "fe_pow22523 z =
     (let t0 = fe_sq_tt z;
          t1 = fe_sq_tt t0;
          t1 = sq_loop 1 2 t1;
          t1 = fe_mul_ttt z t1;
          t0 = fe_mul_ttt t0 t1;
          t0 = fe_sq_tt t0;
          t0 = fe_mul_ttt t1 t0;
          t1 = fe_sq_tt t0;
          t1 = sq_loop 1 5 t1;
          t0 = fe_mul_ttt t1 t0;
          t1 = fe_sq_tt t0;
          t1 = sq_loop 1 10 t1;
          t1 = fe_mul_ttt t1 t0;
          t2 = fe_sq_tt t1;
          t2 = sq_loop 1 20 t2;
          t1 = fe_mul_ttt t2 t1;
          t1 = fe_sq_tt t1;
          t1 = sq_loop 1 10 t1;
          t0 = fe_mul_ttt t1 t0;
          t1 = fe_sq_tt t0;
          t1 = sq_loop 1 50 t1;
          t1 = fe_mul_ttt t1 t0;
          t2 = fe_sq_tt t1;
          t2 = sq_loop 1 100 t2;
          t1 = fe_mul_ttt t2 t1;
          t1 = fe_sq_tt t1;
          t1 = sq_loop 1 50 t1;
          t0 = fe_mul_ttt t1 t0;
          t0 = fe_sq_tt t0;
          t0 = sq_loop 1 2 t0
      in fe_mul_ttt t0 z)"

section \<open>Group elements (\<open>ed25519.c\<close>)\<close>

record ge_p2 =
  X :: fe
  Y :: fe
  Z :: fe

record ge_p3 =
  X :: fe
  Y :: fe
  Z :: fe
  T :: fe

record ge_p1p1 =
  X :: fe_loose
  Y :: fe_loose
  Z :: fe_loose
  T :: fe_loose

record ge_cached =
  YplusX :: fe_loose
  YminusX :: fe_loose
  Z :: fe_loose
  T2d :: fe_loose

definition ge_p2_0 :: ge_p2 where
  "ge_p2_0 = \<lparr>ge_p2.X = fe_0, ge_p2.Y = fe_1, ge_p2.Z = fe_1\<rparr>"

definition ge_p3_0 :: ge_p3 where
  "ge_p3_0 = \<lparr>ge_p3.X = fe_0, ge_p3.Y = fe_1, ge_p3.Z = fe_1, ge_p3.T = fe_0\<rparr>"

definition ge_cached_0 :: ge_cached where
  "ge_cached_0 = \<lparr>YplusX = fe_loose_1, YminusX = fe_loose_1, ge_cached.Z = fe_loose_1,
                   T2d = fe_loose_0\<rparr>"

definition ge_p3_to_p2 :: "ge_p3 \<Rightarrow> ge_p2" where
  "ge_p3_to_p2 p = \<lparr>ge_p2.X = fe_copy (ge_p3.X p), ge_p2.Y = fe_copy (ge_p3.Y p),
                     ge_p2.Z = fe_copy (ge_p3.Z p)\<rparr>"

definition x25519_ge_p3_to_cached :: "ge_p3 \<Rightarrow> ge_cached" where
  "x25519_ge_p3_to_cached p =
     \<lparr>YplusX = fe_add (ge_p3.Y p) (ge_p3.X p),
      YminusX = fe_sub (ge_p3.Y p) (ge_p3.X p),
      ge_cached.Z = fe_copy_lt (ge_p3.Z p),
      T2d = fe_mul_ltt (ge_p3.T p) ed_d2\<rparr>"

definition x25519_ge_p1p1_to_p2 :: "ge_p1p1 \<Rightarrow> ge_p2" where
  "x25519_ge_p1p1_to_p2 p =
     \<lparr>ge_p2.X = fe_mul_tll (ge_p1p1.X p) (ge_p1p1.T p),
      ge_p2.Y = fe_mul_tll (ge_p1p1.Y p) (ge_p1p1.Z p),
      ge_p2.Z = fe_mul_tll (ge_p1p1.Z p) (ge_p1p1.T p)\<rparr>"

definition x25519_ge_p1p1_to_p3 :: "ge_p1p1 \<Rightarrow> ge_p3" where
  "x25519_ge_p1p1_to_p3 p =
     \<lparr>ge_p3.X = fe_mul_tll (ge_p1p1.X p) (ge_p1p1.T p),
      ge_p3.Y = fe_mul_tll (ge_p1p1.Y p) (ge_p1p1.Z p),
      ge_p3.Z = fe_mul_tll (ge_p1p1.Z p) (ge_p1p1.T p),
      ge_p3.T = fe_mul_tll (ge_p1p1.X p) (ge_p1p1.Y p)\<rparr>"

definition ge_p1p1_to_cached :: "ge_p1p1 \<Rightarrow> ge_cached" where
  "ge_p1p1_to_cached p = (let t = x25519_ge_p1p1_to_p3 p in x25519_ge_p3_to_cached t)"

definition ge_p2_dbl :: "ge_p2 \<Rightarrow> ge_p1p1" where
  "ge_p2_dbl p =
     (let trX = fe_sq_tt (ge_p2.X p);
          trZ = fe_sq_tt (ge_p2.Y p);
          trT = fe_sq2_tt (ge_p2.Z p);
          rY = fe_add (ge_p2.X p) (ge_p2.Y p);
          t0 = fe_sq_tl rY;
          rY = fe_add trZ trX;
          rZ = fe_sub trZ trX;
          trZ = fe_carry rY;
          rX = fe_sub t0 trZ;
          trZ = fe_carry rZ;
          rT = fe_sub trT trZ
      in \<lparr>ge_p1p1.X = rX, ge_p1p1.Y = rY, ge_p1p1.Z = rZ, ge_p1p1.T = rT\<rparr>)"

definition x25519_ge_tobytes :: "ge_p2 \<Rightarrow> uint8_t list" where
  "x25519_ge_tobytes h =
     (let recip = fe_invert (ge_p2.Z h);
          x = fe_mul_ttt (ge_p2.X h) recip;
          y = fe_mul_ttt (ge_p2.Y h) recip;
          s = fe_tobytes y
      in s[31 := (s ! 31) XOR word_of_int (push_bit 7 (fe_isnegative x))])"

definition ge_p3_tobytes :: "ge_p3 \<Rightarrow> uint8_t list" where
  "ge_p3_tobytes h =
     (let recip = fe_invert (ge_p3.Z h);
          x = fe_mul_ttt (ge_p3.X h) recip;
          y = fe_mul_ttt (ge_p3.Y h) recip;
          s = fe_tobytes y
      in s[31 := (s ! 31) XOR word_of_int (push_bit 7 (fe_isnegative x))])"

definition x25519_ge_add :: "ge_p3 \<Rightarrow> ge_cached \<Rightarrow> ge_p1p1" where
  "x25519_ge_add p q =
     (let rX = fe_add (ge_p3.Y p) (ge_p3.X p);
          rY = fe_sub (ge_p3.Y p) (ge_p3.X p);
          trZ = fe_mul_tll rX (YplusX q);
          trY = fe_mul_tll rY (YminusX q);
          trT = fe_mul_tlt (T2d q) (ge_p3.T p);
          trX = fe_mul_ttl (ge_p3.Z p) (ge_cached.Z q);
          rT = fe_add trX trX;
          rX = fe_sub trZ trY;
          rY = fe_add trZ trY;
          trZ = fe_carry rT;
          rZ = fe_add trZ trT;
          rT = fe_sub trZ trT
      in \<lparr>ge_p1p1.X = rX, ge_p1p1.Y = rY, ge_p1p1.Z = rZ, ge_p1p1.T = rT\<rparr>)"

text \<open>Standard output, as the sequence of items the \<open>printf\<close> calls write: literal text, and
  numbers printed with \<open>%d\<close> (a 32-bit limb read as a signed \<open>int\<close>).\<close>

datatype stdout_item = Text string | Num int

definition print_limbs :: "uint32_t list \<Rightarrow> stdout_item list" where
  "print_limbs v = concat (map (\<lambda>i. [Num (sint (v ! i)), Text '' '']) [0 ..< 10])"

text \<open>\<open>x25519_ge_sub\<close> returns the result point together with what it printed.\<close>

definition x25519_ge_sub :: "ge_p3 \<Rightarrow> ge_cached \<Rightarrow> stdout_item list \<times> ge_p1p1" where
  "x25519_ge_sub p q =
     (let rX = fe_add (ge_p3.Y p) (ge_p3.X p);
          rY = fe_sub (ge_p3.Y p) (ge_p3.X p);
          trZ = fe_mul_tll rX (YminusX q);
          trY = fe_mul_tll rY (YplusX q);
          trT = fe_mul_tlt (T2d q) (ge_p3.T p);
          trX = fe_mul_ttl (ge_p3.Z p) (ge_cached.Z q);
          rT = fe_add trX trX;
          rX = fe_sub trZ trY;
          rY = fe_add trZ trY;
          out = [Text ''BEFORE: ''] @ print_limbs (fe_loose_v rT) @ [Text [CHR 0x0A]];
          trZ = fe_carry rT;
          out = out @ [Text ''AFTER: ''] @ print_limbs (fe_v trZ) @ [Text [CHR 0x0A]];
          rZ = fe_sub trZ trT;
          rT = fe_add trZ trT
      in (out, \<lparr>ge_p1p1.X = rX, ge_p1p1.Y = rY, ge_p1p1.Z = rZ, ge_p1p1.T = rT\<rparr>))"

text \<open>\<open>x25519_ge_sub\<close> with the two debug print blocks removed, as the spec asks an
  implementer to write it.\<close>

definition x25519_ge_sub_noprint :: "ge_p3 \<Rightarrow> ge_cached \<Rightarrow> ge_p1p1" where
  "x25519_ge_sub_noprint p q =
     (let rX = fe_add (ge_p3.Y p) (ge_p3.X p);
          rY = fe_sub (ge_p3.Y p) (ge_p3.X p);
          trZ = fe_mul_tll rX (YminusX q);
          trY = fe_mul_tll rY (YplusX q);
          trT = fe_mul_tlt (T2d q) (ge_p3.T p);
          trX = fe_mul_ttl (ge_p3.Z p) (ge_cached.Z q);
          rT = fe_add trX trX;
          rX = fe_sub trZ trY;
          rY = fe_add trZ trY;
          trZ = fe_carry rT;
          rZ = fe_sub trZ trT;
          rT = fe_add trZ trT
      in \<lparr>ge_p1p1.X = rX, ge_p1p1.Y = rY, ge_p1p1.Z = rZ, ge_p1p1.T = rT\<rparr>)"

text \<open>\<open>x25519_ge_frombytes_vartime\<close> writes into \<open>h\<close> and returns 0 or 1; the model takes the
  initial \<open>h\<close> and returns the pair of the return value and the final \<open>h\<close>. The result is
  \<open>None\<close> when the assertion in \<open>fe_frombytes_strict\<close> fails.\<close>

definition x25519_ge_frombytes_vartime :: "ge_p3 \<Rightarrow> uint8_t list \<Rightarrow> (int \<times> ge_p3) option" where
  "x25519_ge_frombytes_vartime h s =
     (case fe_frombytes s of
        None \<Rightarrow> None
      | Some hY \<Rightarrow>
         (let h = h\<lparr>ge_p3.Y := hY\<rparr>;
              h = h\<lparr>ge_p3.Z := fe_1\<rparr>;
              v3 = fe_sq_tt (ge_p3.Y h);
              vxx = fe_mul_ttt v3 ed_d;
              v = fe_sub v3 (ge_p3.Z h);
              u = fe_carry v;
              v = fe_add vxx (ge_p3.Z h);
              v3 = fe_sq_tl v;
              v3 = fe_mul_ttl v3 v;
              h = h\<lparr>ge_p3.X := fe_sq_tt v3\<rparr>;
              h = h\<lparr>ge_p3.X := fe_mul_ttl (ge_p3.X h) v\<rparr>;
              h = h\<lparr>ge_p3.X := fe_mul_ttt (ge_p3.X h) u\<rparr>;
              h = h\<lparr>ge_p3.X := fe_pow22523 (ge_p3.X h)\<rparr>;
              h = h\<lparr>ge_p3.X := fe_mul_ttt (ge_p3.X h) v3\<rparr>;
              h = h\<lparr>ge_p3.X := fe_mul_ttt (ge_p3.X h) u\<rparr>;
              vxx = fe_sq_tt (ge_p3.X h);
              vxx = fe_mul_ttl vxx v;
              check = fe_sub vxx u;
              r = (if fe_isnonzero check \<noteq> 0 then
                     (let check = fe_add vxx u
                      in if fe_isnonzero check \<noteq> 0 then Inl (0 :: int)
                         else Inr (h\<lparr>ge_p3.X := fe_mul_ttt (ge_p3.X h) ed_sqrtm1\<rparr>))
                   else Inr h)
          in case r of
               Inl ret \<Rightarrow> Some (ret, h)
             | Inr h \<Rightarrow>
                (let h = (if fe_isnegative (ge_p3.X h) \<noteq> uint (drop_bit 7 (s ! 31)) then
                            (let t = fe_neg (ge_p3.X h) in h\<lparr>ge_p3.X := fe_carry t\<rparr>)
                          else h);
                     h = h\<lparr>ge_p3.T := fe_mul_ttt (ge_p3.X h) (ge_p3.Y h)\<rparr>
                 in Some (1, h))))"

section \<open>The field \<open>GF(2\<^sup>2\<^sup>5\<^sup>5 - 19)\<close> and the value of a field element\<close>

lemma p25519_gt_1: "1 < int p25519"
  by (simp add: p25519_def)

typedef gf = "{0 ..< int p25519}"
  using p25519_gt_1 by auto

setup_lifting type_definition_gf

instantiation gf :: comm_ring_1
begin

lift_definition zero_gf :: gf is 0
  using p25519_gt_1 by simp

lift_definition one_gf :: gf is 1
  using p25519_gt_1 by simp

lift_definition plus_gf :: "gf \<Rightarrow> gf \<Rightarrow> gf" is "\<lambda>a b. (a + b) mod int p25519"
  using p25519_gt_1 by simp

lift_definition uminus_gf :: "gf \<Rightarrow> gf" is "\<lambda>a. (- a) mod int p25519"
  using p25519_gt_1 by simp

lift_definition minus_gf :: "gf \<Rightarrow> gf \<Rightarrow> gf" is "\<lambda>a b. (a - b) mod int p25519"
  using p25519_gt_1 by simp

lift_definition times_gf :: "gf \<Rightarrow> gf \<Rightarrow> gf" is "\<lambda>a b. (a * b) mod int p25519"
  using p25519_gt_1 by simp

instance
proof
  fix a b c :: gf
  show "a * b * c = a * (b * c)"
    by transfer (simp add: mod_simps algebra_simps)
  show "a * b = b * a"
    by transfer (simp add: algebra_simps)
  show "1 * a = a"
    by transfer simp
  show "a + b + c = a + (b + c)"
    by transfer (simp add: mod_simps algebra_simps)
  show "a + b = b + a"
    by transfer (simp add: algebra_simps)
  show "0 + a = a"
    by transfer simp
  show "- a + a = 0"
    by transfer (simp add: mod_simps)
  show "a - b = a + - b"
    by transfer (simp add: mod_simps)
  show "(a + b) * c = a * c + b * c"
    by transfer (simp add: mod_simps algebra_simps)
  show "(0::gf) \<noteq> 1"
    by transfer simp
qed

end

lemma Rep_gf_of_nat: "Rep_gf (of_nat n) = int n mod int p25519"
proof (induction n)
  case 0
  show ?case by (simp add: zero_gf.rep_eq)
next
  case (Suc n)
  then show ?case
    by (simp add: plus_gf.rep_eq one_gf.rep_eq mod_simps add.commute)
qed

lemma gf_of_nat_eq_iff: "((of_nat a :: gf) = of_nat b) = (a mod p25519 = b mod p25519)"
proof -
  have "((of_nat a :: gf) = of_nat b) = (int a mod int p25519 = int b mod int p25519)"
    by (simp add: Rep_gf_inject [symmetric] Rep_gf_of_nat)
  also have "\<dots> = (a mod p25519 = b mod p25519)"
    by (simp add: zmod_int [symmetric])
  finally show ?thesis .
qed

lemma gf_of_nat_mod [simp]: "(of_nat (n mod p25519) :: gf) = of_nat n"
  by (simp add: gf_of_nat_eq_iff)

lemma gf_of_nat_p [simp]: "(of_nat p25519 :: gf) = 0"
  using gf_of_nat_eq_iff [of p25519 0] by simp

definition gf_nat :: "gf \<Rightarrow> nat" where
  "gf_nat x = nat (Rep_gf x)"

lemma gf_nat_less: "gf_nat x < p25519"
proof -
  have "0 \<le> Rep_gf x" and "Rep_gf x < int p25519"
    using Rep_gf [of x] by simp_all
  then show ?thesis
    unfolding gf_nat_def by linarith
qed

lemma gf_nat_of_nat: "gf_nat (of_nat n) = n mod p25519"
  by (simp add: gf_nat_def Rep_gf_of_nat nat_mod_distrib flip: zmod_int)

lemma of_nat_gf_nat [simp]: "of_nat (gf_nat x) = x"
proof -
  have "0 \<le> Rep_gf x" and "Rep_gf x < int p25519"
    using Rep_gf [of x] by simp_all
  then have "int (nat (Rep_gf x)) mod int p25519 = Rep_gf x"
    by simp
  then have "Rep_gf (of_nat (gf_nat x)) = Rep_gf x"
    unfolding Rep_gf_of_nat gf_nat_def .
  then show ?thesis by (simp add: Rep_gf_inject)
qed

definition fe_val :: "fe \<Rightarrow> gf" where
  "fe_val f = of_nat (limbs_val (fe_v f))"

definition fe_loose_val :: "fe_loose \<Rightarrow> gf" where
  "fe_loose_val f = of_nat (limbs_val (fe_loose_v f))"

definition wsum :: "nat list \<Rightarrow> uint32_t list \<Rightarrow> nat" where
  "wsum es xs = sum_list (map2 (\<lambda>e x. unat x * 2 ^ e) es xs)"

lemma wsum_simps [simp]:
  "wsum [] xs = 0" "wsum es [] = 0"
  "wsum (e # es) (x # xs) = unat x * 2 ^ e + wsum es xs"
  by (simp_all add: wsum_def)

lemma limbs_val_wsum: "limbs_val xs = wsum limb_pos xs"
  by (simp add: limbs_val_def wsum_def)

definition bounded_limbs :: "nat list \<Rightarrow> uint32_t list \<Rightarrow> bool" where
  "bounded_limbs ws xs = list_all2 (\<lambda>w x. w \<le> 26 \<and> unat x < 2 ^ w) ws xs"

lemma bounded_limbs_simps [simp]:
  "bounded_limbs [] xs = (xs = [])"
  "bounded_limbs (w # ws) xs
     = (\<exists>y ys. xs = y # ys \<and> w \<le> 26 \<and> unat y < 2 ^ w \<and> bounded_limbs ws ys)"
  by (auto simp add: bounded_limbs_def list_all2_Cons1)

lemma tight_limbs_bounded: "tight_limbs f = bounded_limbs limb_width f"
  unfolding tight_limbs_def bounded_limbs_def limb_width_def
  by (simp add: list_all2_Cons1)

lemma limb_lt_26:
  assumes "w \<le> 26" and "unat (x::uint32_t) < 2 ^ w"
  shows "unat x < 67108864"
proof -
  have "(2::nat) ^ w \<le> 2 ^ 26"
    using assms(1) by (intro power_increasing) simp_all
  then show ?thesis
    using assms(2) by simp
qed

lemma unat_limb_add:
  assumes "unat a < 67108864" and "unat b < 67108864"
  shows "unat ((a::uint32_t) + b) = unat a + unat b"
proof -
  have "unat a + unat b < 2 ^ LENGTH(32)"
    using assms by simp
  then show ?thesis
    by (simp only: unat_add_lem)
qed

lemma unat_limb_sub:
  assumes "unat a < 67108864" and "unat b \<le> unat c" and "unat c < 134217728"
  shows "int (unat (((c::uint32_t) + a) - b)) = int (unat c) + int (unat a) - int (unat b)"
proof -
  have "unat c + unat a < 2 ^ LENGTH(32)"
    using assms by simp
  then have ca: "unat (c + a) = unat c + unat a"
    by (simp only: unat_add_lem)
  then have "b \<le> c + a"
    using assms by (simp add: word_le_nat_alt)
  then have "unat ((c + a) - b) = unat (c + a) - unat b"
    by (rule unat_sub)
  then show ?thesis
    using ca assms by simp
qed

lemma unat_limb_opp:
  assumes "unat a \<le> unat c"
  shows "int (unat ((c::uint32_t) - a)) = int (unat c) - int (unat a)"
proof -
  have "a \<le> c"
    using assms by (simp add: word_le_nat_alt)
  then have "unat (c - a) = unat c - unat a"
    by (rule unat_sub)
  then show ?thesis
    using assms by simp
qed

lemma wsum_add:
  assumes "bounded_limbs ws f" and "bounded_limbs ws g"
  shows "wsum es (fiat_25519_add f g) = wsum es f + wsum es g"
  using assms
proof (induction ws arbitrary: f g es)
  case Nil
  then show ?case by (simp add: fiat_25519_add_def)
next
  case (Cons w ws)
  from Cons.prems obtain a f' b g' where fg: "f = a # f'" "g = b # g'"
    and w: "w \<le> 26" "unat a < 2 ^ w" "unat b < 2 ^ w"
    and rest: "bounded_limbs ws f'" "bounded_limbs ws g'"
    by auto
  have ab: "unat (a + b) = unat a + unat b"
    using w by (intro unat_limb_add limb_lt_26 [of w])
  have IH: "wsum es' (fiat_25519_add f' g') = wsum es' f' + wsum es' g'" for es'
    using Cons.IH [OF rest] .
  show ?case
  proof (cases es)
    case Nil
    then show ?thesis by simp
  next
    case (Cons e es')
    then show ?thesis
      using IH [of es'] ab by (simp add: fg fiat_25519_add_def algebra_simps)
  qed
qed

definition two_p_ok :: "nat list \<Rightarrow> uint32_t list \<Rightarrow> bool" where
  "two_p_ok ws cs = list_all2 (\<lambda>w c. 2 ^ w \<le> unat c \<and> unat c < 134217728) ws cs"

lemma two_p_ok_simps [simp]:
  "two_p_ok [] cs = (cs = [])"
  "two_p_ok (w # ws) cs
     = (\<exists>y ys. cs = y # ys \<and> 2 ^ w \<le> unat y \<and> unat y < 134217728 \<and> two_p_ok ws ys)"
  by (auto simp add: two_p_ok_def list_all2_Cons1)

lemma two_p_limbs_ok: "two_p_ok limb_width two_p_limbs"
  by (simp add: limb_width_def two_p_limbs_def)

lemma wsum_sub:
  assumes "two_p_ok ws cs" and "bounded_limbs ws f" and "bounded_limbs ws g"
  shows "int (wsum es (map2 (\<lambda>(c, a) b. (c + a) - b) (zip cs f) g))
         = int (wsum es cs) + int (wsum es f) - int (wsum es g)"
  using assms
proof (induction ws arbitrary: cs f g es)
  case Nil
  then show ?case by simp
next
  case (Cons w ws)
  from Cons.prems obtain c cs' a f' b g' where fg: "cs = c # cs'" "f = a # f'" "g = b # g'"
    and w: "w \<le> 26" "unat a < 2 ^ w" "unat b < 2 ^ w" "2 ^ w \<le> unat c" "unat c < 134217728"
    and rest: "two_p_ok ws cs'" "bounded_limbs ws f'" "bounded_limbs ws g'"
    by auto
  have "unat a < 67108864"
    using w by (intro limb_lt_26 [of w])
  moreover have "unat b \<le> unat c"
    using w by simp
  ultimately have ab: "int (unat ((c + a) - b)) = int (unat c) + int (unat a) - int (unat b)"
    using w by (intro unat_limb_sub)
  have IH: "int (wsum es' (map2 (\<lambda>(c, a) b. (c + a) - b) (zip cs' f') g'))
         = int (wsum es' cs') + int (wsum es' f') - int (wsum es' g')" for es'
    using Cons.IH [OF rest] .
  show ?case
  proof (cases es)
    case Nil
    then show ?thesis by simp
  next
    case (Cons e es')
    have "int (wsum es (map2 (\<lambda>(c, a) b. (c + a) - b) (zip cs f) g))
          = int (unat ((c + a) - b)) * 2 ^ e
            + int (wsum es' (map2 (\<lambda>(c, a) b. (c + a) - b) (zip cs' f') g'))"
      by (simp add: fg Cons)
    also have "\<dots> = (int (unat c) + int (unat a) - int (unat b)) * 2 ^ e
            + (int (wsum es' cs') + int (wsum es' f') - int (wsum es' g'))"
      by (simp only: ab IH)
    also have "\<dots> = int (wsum es cs) + int (wsum es f) - int (wsum es g)"
      by (simp add: fg Cons algebra_simps)
    finally show ?thesis .
  qed
qed

lemma wsum_opp:
  assumes "two_p_ok ws cs" and "bounded_limbs ws f"
  shows "int (wsum es (map2 (\<lambda>c a. c - a) cs f)) = int (wsum es cs) - int (wsum es f)"
  using assms
proof (induction ws arbitrary: cs f es)
  case Nil
  then show ?case by simp
next
  case (Cons w ws)
  from Cons.prems obtain c cs' a f' where fg: "cs = c # cs'" "f = a # f'"
    and w: "w \<le> 26" "unat a < 2 ^ w" "2 ^ w \<le> unat c" "unat c < 134217728"
    and rest: "two_p_ok ws cs'" "bounded_limbs ws f'"
    by auto
  have "unat a \<le> unat c"
    using w by simp
  then have ab: "int (unat (c - a)) = int (unat c) - int (unat a)"
    by (rule unat_limb_opp)
  have IH: "int (wsum es' (map2 (\<lambda>c a. c - a) cs' f')) = int (wsum es' cs') - int (wsum es' f')"
    for es'
    using Cons.IH [OF rest] .
  show ?case
  proof (cases es)
    case Nil
    then show ?thesis by simp
  next
    case (Cons e es')
    have "int (wsum es (map2 (\<lambda>c a. c - a) cs f))
          = int (unat (c - a)) * 2 ^ e + int (wsum es' (map2 (\<lambda>c a. c - a) cs' f'))"
      by (simp add: fg Cons)
    also have "\<dots> = (int (unat c) - int (unat a)) * 2 ^ e
            + (int (wsum es' cs') - int (wsum es' f'))"
      by (simp only: ab IH)
    also have "\<dots> = int (wsum es cs) - int (wsum es f)"
      by (simp add: fg Cons algebra_simps)
    finally show ?thesis .
  qed
qed

lemma limbs_val_two_p: "limbs_val two_p_limbs = 2 * p25519"
  by (simp add: limbs_val_def two_p_limbs_def limb_pos_def p25519_def)

lemma limbs_val_add:
  assumes "tight_limbs f" and "tight_limbs g"
  shows "limbs_val (fiat_25519_add f g) = limbs_val f + limbs_val g"
  using assms by (simp only: limbs_val_wsum tight_limbs_bounded wsum_add)

lemma limbs_val_sub:
  assumes "tight_limbs f" and "tight_limbs g"
  shows "int (limbs_val (fiat_25519_sub f g))
         = 2 * int p25519 + int (limbs_val f) - int (limbs_val g)"
proof -
  have "int (limbs_val (fiat_25519_sub f g))
        = int (limbs_val two_p_limbs) + int (limbs_val f) - int (limbs_val g)"
    using assms two_p_limbs_ok
    by (simp only: limbs_val_wsum tight_limbs_bounded fiat_25519_sub_def wsum_sub)
  then show ?thesis
    by (simp add: limbs_val_two_p)
qed

lemma limbs_val_opp:
  assumes "tight_limbs f"
  shows "int (limbs_val (fiat_25519_opp f)) = 2 * int p25519 - int (limbs_val f)"
proof -
  have "int (limbs_val (fiat_25519_opp f)) = int (limbs_val two_p_limbs) - int (limbs_val f)"
    using assms two_p_limbs_ok
    by (simp only: limbs_val_wsum tight_limbs_bounded fiat_25519_opp_def wsum_opp)
  then show ?thesis
    by (simp add: limbs_val_two_p)
qed

lemma p25519_lt: "p25519 < 2 ^ 255"
  by (simp add: p25519_def)

lemma limbs_val_reduced: "limbs_val (limbs_of_nat (n mod p25519)) = n mod p25519"
proof -
  have "n mod p25519 < p25519"
    by (simp add: p25519_def)
  then have "n mod p25519 < 2 ^ 255"
    using p25519_lt by simp
  then show ?thesis
    by (simp add: limbs_val_limbs_of_nat)
qed

lemma gf_of_nat_int:
  assumes "int n = 2 * int p25519 + a - b"
  shows "(of_nat n :: gf) = of_int a - of_int b"
proof -
  have "(of_nat n :: gf) = of_int (int n)"
    by simp
  also have "\<dots> = 2 * of_int (int p25519) + of_int a - of_int b"
    by (simp only: assms of_int_add of_int_diff of_int_mult of_int_numeral)
  also have "\<dots> = of_int a - of_int b"
    by simp
  finally show ?thesis .
qed

definition tight :: "fe \<Rightarrow> bool" where
  "tight f = tight_limbs (fe_v f)"

lemma fe_val_simps [simp]:
  "fe_val (fe_mul_ttt f g) = fe_val f * fe_val g"
  "fe_val (fe_mul_tlt l g) = fe_loose_val l * fe_val g"
  "fe_val (fe_mul_ttl f l) = fe_val f * fe_loose_val l"
  "fe_val (fe_mul_tll l m) = fe_loose_val l * fe_loose_val m"
  "fe_loose_val (fe_mul_ltt f g) = fe_val f * fe_val g"
  "fe_loose_val (fe_mul_llt l g) = fe_loose_val l * fe_val g"
  "fe_val (fe_sq_tt f) = fe_val f ^ 2"
  "fe_val (fe_sq_tl l) = fe_loose_val l ^ 2"
  "fe_val (fe_carry l) = fe_loose_val l"
  "fe_loose_val (fe_copy_lt f) = fe_val f"
  "fe_val (fe_copy f) = fe_val f"
  by (simp_all add: fe_val_def fe_loose_val_def fe_mul_ttt_def fe_mul_tlt_def fe_mul_ttl_def
      fe_mul_tll_def fe_mul_ltt_def fe_mul_llt_def fe_sq_tt_def fe_sq_tl_def fe_carry_def
      fe_copy_lt_def fe_copy_def fe_mul_impl_def fiat_25519_carry_mul_def
      fiat_25519_carry_square_def fiat_25519_carry_def limbs_val_reduced power2_eq_square)

lemma tight_simps [simp]:
  "tight (fe_mul_ttt f g)" "tight (fe_mul_tlt l g)" "tight (fe_mul_ttl f l)"
  "tight (fe_mul_tll l m)" "tight (fe_sq_tt f)" "tight (fe_sq_tl l)" "tight (fe_carry l)"
  "tight (fe_copy f) = tight f"
  by (simp_all add: tight_def fe_mul_ttt_def fe_mul_tlt_def fe_mul_ttl_def
      fe_mul_tll_def fe_sq_tt_def fe_sq_tl_def fe_carry_def fe_copy_def
      fe_mul_impl_def fiat_25519_carry_mul_def
      fiat_25519_carry_square_def fiat_25519_carry_def tight_limbs_of_nat)

lemma fe_val_add [simp]:
  assumes "tight f" and "tight g"
  shows "fe_loose_val (fe_add f g) = fe_val f + fe_val g"
  using assms by (simp add: fe_loose_val_def fe_val_def fe_add_def tight_def limbs_val_add)

lemma fe_val_sub [simp]:
  assumes "tight f" and "tight g"
  shows "fe_loose_val (fe_sub f g) = fe_val f - fe_val g"
proof -
  have "int (limbs_val (fiat_25519_sub (fe_v f) (fe_v g)))
        = 2 * int p25519 + int (limbs_val (fe_v f)) - int (limbs_val (fe_v g))"
    using assms by (simp add: tight_def limbs_val_sub)
  then show ?thesis
    by (simp add: fe_loose_val_def fe_val_def fe_sub_def gf_of_nat_int)
qed

lemma fe_val_neg [simp]:
  assumes "tight f"
  shows "fe_loose_val (fe_neg f) = - fe_val f"
proof -
  have "int (limbs_val (fiat_25519_opp (fe_v f)))
        = 2 * int p25519 + 0 - int (limbs_val (fe_v f))"
    using assms by (simp add: tight_def limbs_val_opp)
  then have "(of_nat (limbs_val (fiat_25519_opp (fe_v f))) :: gf)
        = of_int 0 - of_int (int (limbs_val (fe_v f)))"
    by (rule gf_of_nat_int)
  then show ?thesis
    by (simp add: fe_loose_val_def fe_val_def fe_neg_def)
qed

lemma replicate_10: "replicate 10 x = [x, x, x, x, x, x, x, x, x, x]"
  by (simp add: numeral_eq_Suc)

lemma fe_val_consts [simp]:
  "fe_val fe_0 = 0" "fe_val fe_1 = 1" "fe_loose_val fe_loose_0 = 0" "fe_loose_val fe_loose_1 = 1"
  "tight fe_0" "tight fe_1"
  by (simp_all add: fe_val_def fe_loose_val_def fe_0_def fe_1_def fe_loose_0_def fe_loose_1_def
      limbs_val_def limb_pos_def tight_def tight_limbs_def limb_width_def replicate_10)

lemma fe_val_sq_loop [simp]: "fe_val (sq_loop i n t) = fe_val t ^ (2 ^ (n - i))"
proof (induction i n t rule: sq_loop.induct)
  case (1 i n t)
  show ?case
  proof (cases "i < n")
    case True
    then have "n - i = Suc (n - (i + 1))"
      by simp
    then show ?thesis
      using True 1 by (simp add: sq_loop.simps [of i n t] power_mult [symmetric])
  next
    case False
    then show ?thesis
      by (simp add: sq_loop.simps [of i n t])
  qed
qed

lemma tight_sq_loop [simp]: "tight t \<Longrightarrow> tight (sq_loop i n t)"
proof (induction i n t rule: sq_loop.induct)
  case (1 i n t)
  then show ?case
    by (simp add: sq_loop.simps [of i n t])
qed

lemma sq_pow: "fe_val t = x ^ a \<Longrightarrow> fe_val (fe_sq_tt t) = x ^ (2 * a)"
  by (simp add: power_mult [symmetric] mult.commute)

lemma sq_tl_pow: "fe_loose_val t = x ^ a \<Longrightarrow> fe_val (fe_sq_tl t) = x ^ (2 * a)"
  by (simp add: power_mult [symmetric] mult.commute)

lemma loop_pow: "fe_val t = x ^ a \<Longrightarrow> fe_val (sq_loop i n t) = x ^ (a * 2 ^ (n - i))"
  by (simp add: power_mult [symmetric])

lemma mul_pow:
  "fe_val s = x ^ a \<Longrightarrow> fe_val t = x ^ b \<Longrightarrow> fe_val (fe_mul_ttt s t) = x ^ (a + b)"
  by (simp add: power_add)

lemma mul_tlt_pow:
  "fe_loose_val s = x ^ a \<Longrightarrow> fe_val t = x ^ b \<Longrightarrow> fe_val (fe_mul_tlt s t) = x ^ (a + b)"
  by (simp add: power_add)

lemma fe_val_pow22523: "fe_val (fe_pow22523 z) = fe_val z ^ (2 ^ 252 - 3)"
proof -
  define x where "x = fe_val z"
  have vz: "fe_val z = x ^ 1" by (simp add: x_def)
  define t0_1 where "t0_1 = fe_sq_tt z"
  have v1: "fe_val t0_1 = x ^ 2"
    unfolding t0_1_def using sq_pow [OF vz] by simp
  define t1_2 where "t1_2 = fe_sq_tt t0_1"
  have v2: "fe_val t1_2 = x ^ 4"
    unfolding t1_2_def using sq_pow [OF v1] by simp
  define t1_3 where "t1_3 = sq_loop 1 2 t1_2"
  have v3: "fe_val t1_3 = x ^ 8"
    unfolding t1_3_def using loop_pow [OF v2, of 1 2] by simp
  define t1_4 where "t1_4 = fe_mul_ttt z t1_3"
  have v4: "fe_val t1_4 = x ^ 9"
    unfolding t1_4_def using mul_pow [OF vz v3] by simp
  define t0_5 where "t0_5 = fe_mul_ttt t0_1 t1_4"
  have v5: "fe_val t0_5 = x ^ 11"
    unfolding t0_5_def using mul_pow [OF v1 v4] by simp
  define t0_6 where "t0_6 = fe_sq_tt t0_5"
  have v6: "fe_val t0_6 = x ^ 22"
    unfolding t0_6_def using sq_pow [OF v5] by simp
  define t0_7 where "t0_7 = fe_mul_ttt t1_4 t0_6"
  have v7: "fe_val t0_7 = x ^ 31"
    unfolding t0_7_def using mul_pow [OF v4 v6] by simp
  define t1_8 where "t1_8 = fe_sq_tt t0_7"
  have v8: "fe_val t1_8 = x ^ 62"
    unfolding t1_8_def using sq_pow [OF v7] by simp
  define t1_9 where "t1_9 = sq_loop 1 5 t1_8"
  have v9: "fe_val t1_9 = x ^ 992"
    unfolding t1_9_def using loop_pow [OF v8, of 1 5] by simp
  define t0_10 where "t0_10 = fe_mul_ttt t1_9 t0_7"
  have v10: "fe_val t0_10 = x ^ 1023"
    unfolding t0_10_def using mul_pow [OF v9 v7] by simp
  define t1_11 where "t1_11 = fe_sq_tt t0_10"
  have v11: "fe_val t1_11 = x ^ 2046"
    unfolding t1_11_def using sq_pow [OF v10] by simp
  define t1_12 where "t1_12 = sq_loop 1 10 t1_11"
  have v12: "fe_val t1_12 = x ^ 1047552"
    unfolding t1_12_def using loop_pow [OF v11, of 1 10] by simp
  define t1_13 where "t1_13 = fe_mul_ttt t1_12 t0_10"
  have v13: "fe_val t1_13 = x ^ 1048575"
    unfolding t1_13_def using mul_pow [OF v12 v10] by simp
  define t2_14 where "t2_14 = fe_sq_tt t1_13"
  have v14: "fe_val t2_14 = x ^ 2097150"
    unfolding t2_14_def using sq_pow [OF v13] by simp
  define t2_15 where "t2_15 = sq_loop 1 20 t2_14"
  have v15: "fe_val t2_15 = x ^ 1099510579200"
    unfolding t2_15_def using loop_pow [OF v14, of 1 20] by simp
  define t1_16 where "t1_16 = fe_mul_ttt t2_15 t1_13"
  have v16: "fe_val t1_16 = x ^ 1099511627775"
    unfolding t1_16_def using mul_pow [OF v15 v13] by simp
  define t1_17 where "t1_17 = fe_sq_tt t1_16"
  have v17: "fe_val t1_17 = x ^ 2199023255550"
    unfolding t1_17_def using sq_pow [OF v16] by simp
  define t1_18 where "t1_18 = sq_loop 1 10 t1_17"
  have v18: "fe_val t1_18 = x ^ 1125899906841600"
    unfolding t1_18_def using loop_pow [OF v17, of 1 10] by simp
  define t0_19 where "t0_19 = fe_mul_ttt t1_18 t0_10"
  have v19: "fe_val t0_19 = x ^ 1125899906842623"
    unfolding t0_19_def using mul_pow [OF v18 v10] by simp
  define t1_20 where "t1_20 = fe_sq_tt t0_19"
  have v20: "fe_val t1_20 = x ^ 2251799813685246"
    unfolding t1_20_def using sq_pow [OF v19] by simp
  define t1_21 where "t1_21 = sq_loop 1 50 t1_20"
  have v21: "fe_val t1_21 = x ^ 1267650600228228275596796362752"
    unfolding t1_21_def using loop_pow [OF v20, of 1 50] by simp
  define t1_22 where "t1_22 = fe_mul_ttt t1_21 t0_19"
  have v22: "fe_val t1_22 = x ^ 1267650600228229401496703205375"
    unfolding t1_22_def using mul_pow [OF v21 v19] by simp
  define t2_23 where "t2_23 = fe_sq_tt t1_22"
  have v23: "fe_val t2_23 = x ^ 2535301200456458802993406410750"
    unfolding t2_23_def using sq_pow [OF v22] by simp
  define t2_24 where "t2_24 = sq_loop 1 100 t2_23"
  have v24: "fe_val t2_24 = x ^ 1606938044258990275541962092339894951921974764381296132096000"
    unfolding t2_24_def using loop_pow [OF v23, of 1 100] by simp
  define t1_25 where "t1_25 = fe_mul_ttt t2_24 t1_22"
  have v25: "fe_val t1_25 = x ^ 1606938044258990275541962092341162602522202993782792835301375"
    unfolding t1_25_def using mul_pow [OF v24 v22] by simp
  define t1_26 where "t1_26 = fe_sq_tt t1_25"
  have v26: "fe_val t1_26 = x ^ 3213876088517980551083924184682325205044405987565585670602750"
    unfolding t1_26_def using sq_pow [OF v25] by simp
  define t1_27 where "t1_27 = sq_loop 1 50 t1_26"
  have v27: "fe_val t1_27 = x ^ 1809251394333065553493296640760748560207343510400633813116523624223735808000"
    unfolding t1_27_def using loop_pow [OF v26, of 1 50] by simp
  define t0_28 where "t0_28 = fe_mul_ttt t1_27 t0_19"
  have v28: "fe_val t0_28 = x ^ 1809251394333065553493296640760748560207343510400633813116524750123642650623"
    unfolding t0_28_def using mul_pow [OF v27 v19] by simp
  define t0_29 where "t0_29 = fe_sq_tt t0_28"
  have v29: "fe_val t0_29 = x ^ 3618502788666131106986593281521497120414687020801267626233049500247285301246"
    unfolding t0_29_def using sq_pow [OF v28] by simp
  define t0_30 where "t0_30 = sq_loop 1 2 t0_29"
  have v30: "fe_val t0_30 = x ^ 7237005577332262213973186563042994240829374041602535252466099000494570602492"
    unfolding t0_30_def using loop_pow [OF v29, of 1 2] by simp
  define out where "out = fe_mul_ttt t0_30 z"
  have v31: "fe_val out = x ^ 7237005577332262213973186563042994240829374041602535252466099000494570602493"
    unfolding out_def using mul_pow [OF v30 vz] by simp
  have "fe_pow22523 z = out"
    unfolding fe_pow22523_def Let_def
      t0_1_def t1_2_def t1_3_def t1_4_def t0_5_def t0_6_def t0_7_def t1_8_def t1_9_def t0_10_def
      t1_11_def t1_12_def t1_13_def t2_14_def t2_15_def t1_16_def t1_17_def t1_18_def t0_19_def
      t1_20_def t1_21_def t1_22_def t2_23_def t2_24_def t1_25_def t1_26_def t1_27_def t0_28_def
      t0_29_def t0_30_def out_def
    by (rule refl)
  then show ?thesis
    using v31 by (simp add: x_def)
qed

lemma fe_val_loose_invert: "fe_val (fe_loose_invert z) = fe_loose_val z ^ (2 ^ 255 - 21)"
proof -
  define x where "x = fe_loose_val z"
  have vz: "fe_loose_val z = x ^ 1" by (simp add: x_def)
  define t0_1 where "t0_1 = fe_sq_tl z"
  have v1: "fe_val t0_1 = x ^ 2"
    unfolding t0_1_def using sq_tl_pow [OF vz] by simp
  define t1_2 where "t1_2 = fe_sq_tt t0_1"
  have v2: "fe_val t1_2 = x ^ 4"
    unfolding t1_2_def using sq_pow [OF v1] by simp
  define t1_3 where "t1_3 = sq_loop 1 2 t1_2"
  have v3: "fe_val t1_3 = x ^ 8"
    unfolding t1_3_def using loop_pow [OF v2, of 1 2] by simp
  define t1_4 where "t1_4 = fe_mul_tlt z t1_3"
  have v4: "fe_val t1_4 = x ^ 9"
    unfolding t1_4_def using mul_tlt_pow [OF vz v3] by simp
  define t0_5 where "t0_5 = fe_mul_ttt t0_1 t1_4"
  have v5: "fe_val t0_5 = x ^ 11"
    unfolding t0_5_def using mul_pow [OF v1 v4] by simp
  define t2_6 where "t2_6 = fe_sq_tt t0_5"
  have v6: "fe_val t2_6 = x ^ 22"
    unfolding t2_6_def using sq_pow [OF v5] by simp
  define t1_7 where "t1_7 = fe_mul_ttt t1_4 t2_6"
  have v7: "fe_val t1_7 = x ^ 31"
    unfolding t1_7_def using mul_pow [OF v4 v6] by simp
  define t2_8 where "t2_8 = fe_sq_tt t1_7"
  have v8: "fe_val t2_8 = x ^ 62"
    unfolding t2_8_def using sq_pow [OF v7] by simp
  define t2_9 where "t2_9 = sq_loop 1 5 t2_8"
  have v9: "fe_val t2_9 = x ^ 992"
    unfolding t2_9_def using loop_pow [OF v8, of 1 5] by simp
  define t1_10 where "t1_10 = fe_mul_ttt t2_9 t1_7"
  have v10: "fe_val t1_10 = x ^ 1023"
    unfolding t1_10_def using mul_pow [OF v9 v7] by simp
  define t2_11 where "t2_11 = fe_sq_tt t1_10"
  have v11: "fe_val t2_11 = x ^ 2046"
    unfolding t2_11_def using sq_pow [OF v10] by simp
  define t2_12 where "t2_12 = sq_loop 1 10 t2_11"
  have v12: "fe_val t2_12 = x ^ 1047552"
    unfolding t2_12_def using loop_pow [OF v11, of 1 10] by simp
  define t2_13 where "t2_13 = fe_mul_ttt t2_12 t1_10"
  have v13: "fe_val t2_13 = x ^ 1048575"
    unfolding t2_13_def using mul_pow [OF v12 v10] by simp
  define t3_14 where "t3_14 = fe_sq_tt t2_13"
  have v14: "fe_val t3_14 = x ^ 2097150"
    unfolding t3_14_def using sq_pow [OF v13] by simp
  define t3_15 where "t3_15 = sq_loop 1 20 t3_14"
  have v15: "fe_val t3_15 = x ^ 1099510579200"
    unfolding t3_15_def using loop_pow [OF v14, of 1 20] by simp
  define t2_16 where "t2_16 = fe_mul_ttt t3_15 t2_13"
  have v16: "fe_val t2_16 = x ^ 1099511627775"
    unfolding t2_16_def using mul_pow [OF v15 v13] by simp
  define t2_17 where "t2_17 = fe_sq_tt t2_16"
  have v17: "fe_val t2_17 = x ^ 2199023255550"
    unfolding t2_17_def using sq_pow [OF v16] by simp
  define t2_18 where "t2_18 = sq_loop 1 10 t2_17"
  have v18: "fe_val t2_18 = x ^ 1125899906841600"
    unfolding t2_18_def using loop_pow [OF v17, of 1 10] by simp
  define t1_19 where "t1_19 = fe_mul_ttt t2_18 t1_10"
  have v19: "fe_val t1_19 = x ^ 1125899906842623"
    unfolding t1_19_def using mul_pow [OF v18 v10] by simp
  define t2_20 where "t2_20 = fe_sq_tt t1_19"
  have v20: "fe_val t2_20 = x ^ 2251799813685246"
    unfolding t2_20_def using sq_pow [OF v19] by simp
  define t2_21 where "t2_21 = sq_loop 1 50 t2_20"
  have v21: "fe_val t2_21 = x ^ 1267650600228228275596796362752"
    unfolding t2_21_def using loop_pow [OF v20, of 1 50] by simp
  define t2_22 where "t2_22 = fe_mul_ttt t2_21 t1_19"
  have v22: "fe_val t2_22 = x ^ 1267650600228229401496703205375"
    unfolding t2_22_def using mul_pow [OF v21 v19] by simp
  define t3_23 where "t3_23 = fe_sq_tt t2_22"
  have v23: "fe_val t3_23 = x ^ 2535301200456458802993406410750"
    unfolding t3_23_def using sq_pow [OF v22] by simp
  define t3_24 where "t3_24 = sq_loop 1 100 t3_23"
  have v24: "fe_val t3_24 = x ^ 1606938044258990275541962092339894951921974764381296132096000"
    unfolding t3_24_def using loop_pow [OF v23, of 1 100] by simp
  define t2_25 where "t2_25 = fe_mul_ttt t3_24 t2_22"
  have v25: "fe_val t2_25 = x ^ 1606938044258990275541962092341162602522202993782792835301375"
    unfolding t2_25_def using mul_pow [OF v24 v22] by simp
  define t2_26 where "t2_26 = fe_sq_tt t2_25"
  have v26: "fe_val t2_26 = x ^ 3213876088517980551083924184682325205044405987565585670602750"
    unfolding t2_26_def using sq_pow [OF v25] by simp
  define t2_27 where "t2_27 = sq_loop 1 50 t2_26"
  have v27: "fe_val t2_27 = x ^ 1809251394333065553493296640760748560207343510400633813116523624223735808000"
    unfolding t2_27_def using loop_pow [OF v26, of 1 50] by simp
  define t1_28 where "t1_28 = fe_mul_ttt t2_27 t1_19"
  have v28: "fe_val t1_28 = x ^ 1809251394333065553493296640760748560207343510400633813116524750123642650623"
    unfolding t1_28_def using mul_pow [OF v27 v19] by simp
  define t1_29 where "t1_29 = fe_sq_tt t1_28"
  have v29: "fe_val t1_29 = x ^ 3618502788666131106986593281521497120414687020801267626233049500247285301246"
    unfolding t1_29_def using sq_pow [OF v28] by simp
  define t1_30 where "t1_30 = sq_loop 1 5 t1_29"
  have v30: "fe_val t1_30 = x ^ 57896044618658097711785492504343953926634992332820282019728792003956564819936"
    unfolding t1_30_def using loop_pow [OF v29, of 1 5] by simp
  define out where "out = fe_mul_ttt t1_30 t0_5"
  have v31: "fe_val out = x ^ 57896044618658097711785492504343953926634992332820282019728792003956564819947"
    unfolding out_def using mul_pow [OF v30 v5] by simp
  have "fe_loose_invert z = out"
    unfolding fe_loose_invert_def Let_def
      t0_1_def t1_2_def t1_3_def t1_4_def t0_5_def t2_6_def t1_7_def t2_8_def t2_9_def t1_10_def
      t2_11_def t2_12_def t2_13_def t3_14_def t3_15_def t2_16_def t2_17_def t2_18_def t1_19_def
      t2_20_def t2_21_def t2_22_def t3_23_def t3_24_def t2_25_def t2_26_def t2_27_def t1_28_def
      t1_29_def t1_30_def out_def
    by (rule refl)
  then show ?thesis
    using v31 by (simp add: x_def)
qed

section \<open>The zero test\<close>

definition fe_of_gf :: "gf \<Rightarrow> fe" where
  "fe_of_gf x = Fe (limbs_of_nat (gf_nat x))"

lemma gf_nat_of_nat_limbs: "limbs_val f mod p25519 = gf_nat (of_nat (limbs_val f))"
  by (simp add: gf_nat_of_nat)

lemma fe_val_fe_of_gf [simp]: "fe_val (fe_of_gf x) = x"
proof -
  have "gf_nat x < 2 ^ 255"
    using gf_nat_less [of x] p25519_lt by simp
  then show ?thesis
    by (simp add: fe_val_def fe_of_gf_def limbs_val_limbs_of_nat)
qed

lemma tight_fe_of_gf [simp]: "tight (fe_of_gf x)"
  by (simp add: tight_def fe_of_gf_def tight_limbs_of_nat)

lemma fe_canonical:
  "fe_mul_ttt f g = fe_of_gf (fe_val f * fe_val g)"
  "fe_mul_tlt l g = fe_of_gf (fe_loose_val l * fe_val g)"
  "fe_mul_ttl f l = fe_of_gf (fe_val f * fe_loose_val l)"
  "fe_mul_tll l m = fe_of_gf (fe_loose_val l * fe_loose_val m)"
  "fe_sq_tt f = fe_of_gf (fe_val f ^ 2)"
  "fe_sq_tl l = fe_of_gf (fe_loose_val l ^ 2)"
  "fe_carry l = fe_of_gf (fe_loose_val l)"
  by (simp_all add: fe_of_gf_def fe_val_def fe_loose_val_def fe_mul_ttt_def fe_mul_tlt_def
      fe_mul_ttl_def fe_mul_tll_def fe_sq_tt_def fe_sq_tl_def fe_carry_def fe_mul_impl_def
      fiat_25519_carry_mul_def fiat_25519_carry_square_def fiat_25519_carry_def
      gf_nat_of_nat power2_eq_square of_nat_mult [symmetric] del: of_nat_mult)

lemma fe_tobytes_val: "fe_tobytes f = bytes_of_nat 32 (gf_nat (fe_val f))"
  by (simp add: fe_tobytes_def fiat_25519_to_bytes_def fe_val_def gf_nat_of_nat)

lemma gf_nat_eq_0_iff [simp]: "(gf_nat x = 0) = (x = 0)"
proof
  assume "gf_nat x = 0"
  then have "of_nat (gf_nat x) = (of_nat 0 :: gf)"
    by simp
  then show "x = 0"
    by simp
next
  assume "x = 0"
  then show "gf_nat x = 0"
    by (simp add: gf_nat_def zero_gf.rep_eq)
qed

lemma memcmp_eq_0_iff:
  assumes "length a = n" and "length b = n"
  shows "(memcmp a b n = 0) = (a = b)"
  using assms
proof (induction a b n rule: memcmp.induct)
  case (1 a as b bs n)
  then show ?case by (auto dest: word_uint_eqI)
qed simp_all

lemma bytes_of_nat_0: "bytes_of_nat k 0 = replicate k 0"
  by (induction k) simp_all

lemma le_bytes_val_inj:
  assumes "length s = length t" and "le_bytes_val s = le_bytes_val t"
  shows "s = t"
proof -
  have "s = bytes_of_nat (length s) (le_bytes_val s)"
    by (simp only: bytes_of_nat_le_bytes_val)
  also have "\<dots> = bytes_of_nat (length t) (le_bytes_val t)"
    by (simp only: assms)
  also have "\<dots> = t"
    by (simp only: bytes_of_nat_le_bytes_val)
  finally show ?thesis .
qed

lemma le_bytes_val_replicate_0 [simp]: "le_bytes_val (replicate k 0) = 0"
  by (induction k) simp_all

lemma bytes_of_nat_eq_zero_iff:
  assumes "n < 256 ^ k"
  shows "(bytes_of_nat k n = replicate k 0) = (n = 0)"
proof
  assume "bytes_of_nat k n = replicate k 0"
  then have "le_bytes_val (bytes_of_nat k n) = le_bytes_val (replicate k 0)"
    by simp
  then show "n = 0"
    using assms by (simp add: le_bytes_val_bytes_of_nat)
next
  assume "n = 0"
  then show "bytes_of_nat k n = replicate k 0"
    by (simp add: bytes_of_nat_0)
qed

lemma gf_nat_lt_256_32: "gf_nat x < 256 ^ 32"
proof -
  have "gf_nat x < 2 ^ 255"
    using gf_nat_less [of x] p25519_lt by simp
  also have "(2::nat) ^ 255 < 256 ^ 32"
    by simp
  finally show ?thesis .
qed

lemma fe_tobytes_eq_zero_iff: "(fe_tobytes f = replicate 32 0) = (fe_val f = 0)"
  using bytes_of_nat_eq_zero_iff [OF gf_nat_lt_256_32, of "fe_val f"]
  by (simp add: fe_tobytes_val)

text \<open>
  Claim C8 (zero test). \<open>fe_isnonzero f\<close> is 0 when the value of \<open>f\<close> is zero modulo \<open>p\<close>
  and 1 otherwise, whatever limbs represent the value; the test compares the canonical
  encoding of \<open>fe_carry f\<close> with the all-zero 32-byte string.
\<close>

theorem fe_isnonzero_correct:
  "fe_isnonzero f = (if limbs_val (fe_loose_v f) mod p25519 = 0 then 0 else 1)
   \<and> (limbs_val (fe_loose_v f) mod p25519 = 0) = (fe_loose_val f = 0)
   \<and> (fe_loose_val f = 0) = (fe_tobytes (fe_carry f) = replicate 32 0)"
proof -
  have enc: "(fe_tobytes (fe_carry f) = replicate 32 0) = (fe_loose_val f = 0)"
    by (simp add: fe_tobytes_eq_zero_iff)
  have "length (fe_tobytes (fe_carry f)) = 32"
    by (simp add: fe_tobytes_val)
  then have "(memcmp (fe_tobytes (fe_carry f)) (replicate 32 0) 32 = 0)
             = (fe_tobytes (fe_carry f) = replicate 32 0)"
    by (intro memcmp_eq_0_iff) simp_all
  then have ret: "fe_isnonzero f = (if fe_loose_val f = 0 then 0 else 1)"
    using enc by (simp add: fe_isnonzero_def Let_def)
  have "(limbs_val (fe_loose_v f) mod p25519 = 0) = (fe_loose_val f = 0)"
    using gf_of_nat_eq_iff [of "limbs_val (fe_loose_v f)" 0]
    by (simp add: fe_loose_val_def)
  then show ?thesis
    using ret enc by simp
qed

section \<open>Point decoding\<close>

definition gf_d :: gf where
  "gf_d = fe_val ed_d"

definition gf_sqrtm1 :: gf where
  "gf_sqrtm1 = fe_val ed_sqrtm1"

definition decode_y :: "uint8_t list \<Rightarrow> gf" where
  "decode_y s = of_nat (le_bytes_val s mod 2 ^ 255)"

definition decode_sign :: "uint8_t list \<Rightarrow> nat" where
  "decode_sign s = unat (s ! 31) div 128"

definition decode_u :: "uint8_t list \<Rightarrow> gf" where
  "decode_u s = (decode_y s)\<^sup>2 - 1"

definition decode_v :: "uint8_t list \<Rightarrow> gf" where
  "decode_v s = gf_d * (decode_y s)\<^sup>2 + 1"

definition decode_candidate :: "uint8_t list \<Rightarrow> gf" where
  "decode_candidate s =
     (decode_u s * decode_v s ^ 3) * (decode_u s * decode_v s ^ 7) ^ ((p25519 - 5) div 8)"

definition decode_ok :: "uint8_t list \<Rightarrow> bool" where
  "decode_ok s =
     (decode_v s * (decode_candidate s)\<^sup>2 = decode_u s
      \<or> decode_v s * (decode_candidate s)\<^sup>2 = - decode_u s)"

definition decode_fix_sign :: "uint8_t list \<Rightarrow> gf \<Rightarrow> gf" where
  "decode_fix_sign s x = (if gf_nat x mod 2 \<noteq> decode_sign s then - x else x)"

definition decode_x :: "uint8_t list \<Rightarrow> gf" where
  "decode_x s =
     decode_fix_sign s
       (if decode_v s * (decode_candidate s)\<^sup>2 = decode_u s then decode_candidate s
        else decode_candidate s * gf_sqrtm1)"

definition decode_Y :: "uint8_t list \<Rightarrow> fe" where
  "decode_Y s = Fe (limbs_of_nat (le_bytes_val s mod 2 ^ 255))"

definition enc_one :: "uint8_t list" where
  "enc_one = [1, 0, 0, 0, 0, 0, 0, 0, 0, 0, 0, 0, 0, 0, 0, 0,
              0, 0, 0, 0, 0, 0, 0, 0, 0, 0, 0, 0, 0, 0, 0, 0]"

lemma p58: "(p25519 - 5) div 8 = 2 ^ 252 - 3"
  by (simp add: p25519_def)

lemma fe_of_gf_val_mul: "fe_of_gf (fe_val (fe_mul_ttt a b)) = fe_mul_ttt a b"
  by (simp add: fe_canonical)

lemma fe_pow22523_canonical: "fe_pow22523 z = fe_of_gf (fe_val z ^ (2 ^ 252 - 3))"
proof -
  have "\<exists>a. fe_pow22523 z = fe_mul_ttt a z"
    unfolding fe_pow22523_def Let_def by (rule exI, rule refl)
  then obtain a where "fe_pow22523 z = fe_mul_ttt a z" ..
  then have "fe_pow22523 z = fe_of_gf (fe_val (fe_pow22523 z))"
    by (simp only: fe_of_gf_val_mul)
  then show ?thesis
    by (simp only: fe_val_pow22523)
qed

lemma bytes_of_nat_nth_0: "bytes_of_nat (Suc k) n ! 0 = of_nat (n mod 256)"
  by simp

lemma uint_and_1: "uint ((of_nat m :: uint8_t) AND 1) = int (m mod 2)"
proof -
  have a: "(of_nat m :: uint8_t) AND 1 = take_bit 1 (of_nat m)"
    by (simp add: take_bit_eq_mask)
  have b: "uint (of_nat m :: uint8_t) = int (m mod 256)"
  proof -
    have "uint (of_nat m :: uint8_t) = int (unat (of_nat m :: uint8_t))"
      by (rule uint_nat)
    then show ?thesis
      using unat_of_nat [of m, where ?'a = 8] by (simp only:) simp
  qed
  have "uint ((of_nat m :: uint8_t) AND 1) = uint (of_nat m :: uint8_t) mod 2"
    unfolding a by (simp add: take_bit_eq_mod uint_mod)
  also have "\<dots> = int (m mod 256) mod 2"
    by (simp only: b)
  also have "\<dots> = int (m mod 256 mod 2)"
    by (simp add: zmod_int)
  also have "m mod 256 mod 2 = m mod 2"
    by (simp add: mod_mod_cancel)
  finally show ?thesis .
qed

lemma fe_isnegative_val: "fe_isnegative f = int (gf_nat (fe_val f) mod 2)"
proof -
  have "fe_tobytes f ! 0 = bytes_of_nat (Suc 31) (gf_nat (fe_val f)) ! 0"
    by (simp add: fe_tobytes_val)
  also have "\<dots> = of_nat (gf_nat (fe_val f) mod 256)"
    by (rule bytes_of_nat_nth_0)
  finally show ?thesis
    by (simp add: fe_isnegative_def uint_and_1 mod_mod_cancel)
qed

lemma uint_top_bit: "uint (drop_bit 7 (b::uint8_t)) = int (unat b div 128)"
  by (simp add: drop_bit_eq_div uint_div zdiv_int)

lemma candidate_eq:
  fixes u v :: gf
  shows "(((v\<^sup>2 * v)\<^sup>2 * v) * u) ^ e * (v\<^sup>2 * v) * u = (u * v ^ 3) * (u * v ^ 7) ^ e"
proof -
  have "((v\<^sup>2 * v)\<^sup>2 * v) * u = u * v ^ 7"
    by (simp add: eval_nat_numeral algebra_simps)
  moreover have "v\<^sup>2 * v = v ^ 3"
    by (simp add: eval_nat_numeral)
  ultimately show ?thesis
    by (simp add: algebra_simps)
qed

lemma fe_val_ed_sqrtm1: "fe_val ed_sqrtm1 = of_nat 19681161376707505956807079304988542015446066515923890162744021073123829784752"
  by (simp add: fe_val_def ed_sqrtm1_def limbs_val_def limb_pos_def)

lemma fe_val_ed_d: "fe_val ed_d = of_nat 37095705934669439343138083508754565189542113879843219016388785533085940283555"
  by (simp add: fe_val_def ed_d_def limbs_val_def limb_pos_def)

lemma fe_val_ed_d2: "fe_val ed_d2 = of_nat 16295367250680780974490674513165176452449235426866156013048779062215315747161"
  by (simp add: fe_val_def ed_d2_def limbs_val_def limb_pos_def)

lemma gf_sqrtm1_sq: "gf_sqrtm1\<^sup>2 = - 1"
proof -
  have "(19681161376707505956807079304988542015446066515923890162744021073123829784752::nat) * 19681161376707505956807079304988542015446066515923890162744021073123829784752 + 1 = 6690407189080634018507799843845558368979872843924222843531373839242004886245 * p25519"
    by (simp add: p25519_def)
  then have "(of_nat (19681161376707505956807079304988542015446066515923890162744021073123829784752 * 19681161376707505956807079304988542015446066515923890162744021073123829784752 + 1) :: gf) = of_nat (6690407189080634018507799843845558368979872843924222843531373839242004886245 * p25519)"
    by (simp only:)
  then have "(of_nat 19681161376707505956807079304988542015446066515923890162744021073123829784752 :: gf) * of_nat 19681161376707505956807079304988542015446066515923890162744021073123829784752 + 1 = 0"
    by (simp only: of_nat_add of_nat_mult of_nat_1 gf_of_nat_p mult_zero_right)
  then show ?thesis
    by (simp only: gf_sqrtm1_def fe_val_ed_sqrtm1 power2_eq_square eq_neg_iff_add_eq_0)
qed

lemma gf_d_frac: "gf_d * 121666 = - 121665"
proof -
  have "(37095705934669439343138083508754565189542113879843219016388785533085940283555::nat) * 121666 + 121665 = 77955 * p25519"
    by (simp add: p25519_def)
  then have "(of_nat (37095705934669439343138083508754565189542113879843219016388785533085940283555 * 121666 + 121665) :: gf) = of_nat (77955 * p25519)"
    by (simp only:)
  then have "(of_nat 37095705934669439343138083508754565189542113879843219016388785533085940283555 :: gf) * of_nat 121666 + of_nat 121665 = 0"
    by (simp only: of_nat_add of_nat_mult gf_of_nat_p mult_zero_right)
  then show ?thesis
    by (simp add: gf_d_def fe_val_ed_d eq_neg_iff_add_eq_0)
qed

lemma fe_frombytes_eq:
  assumes "length s = 32"
  shows "fe_frombytes s = Some (Fe (limbs_of_nat (le_bytes_val s mod 2 ^ 255)))"
proof -
  let ?t = "s[31 := (s ! 31) AND 0x7f]"
  have "unat ((s ! 31) AND 0x7f) < 128"
    by (simp add: unat_and_7f)
  then have top: "(?t ! 31) AND 0x80 = 0"
    using assms by (simp add: and_80_zero_iff)
  have "le_bytes_val ?t = le_bytes_val s mod 2 ^ 255"
    by (rule le_bytes_val_masked [OF assms])
  then show ?thesis
    using top by (simp add: fe_frombytes_def fe_frombytes_strict_def fiat_25519_from_bytes_def)
qed

lemma fe_isnonzero_iff: "(fe_isnonzero f \<noteq> 0) = (fe_loose_val f \<noteq> 0)"
  using fe_isnonzero_correct [of f] by (simp split: if_splits)

lemma decode_raw:
  assumes len: "length s = 32"
    and y: "decode_y s = y"
    and u: "y\<^sup>2 - 1 = u"
    and v: "y\<^sup>2 * fe_val ed_d + 1 = v"
    and x0: "(((v\<^sup>2 * v)\<^sup>2 * v) * u) ^ (2 ^ 252 - 3) * (v\<^sup>2 * v) * u = x0"
    and hY: "hY = Fe (limbs_of_nat (le_bytes_val s mod 2 ^ 255))"
  shows "x25519_ge_frombytes_vartime h s =
    (if x0\<^sup>2 * v = u \<or> x0\<^sup>2 * v + u = 0 then
       (let x = decode_fix_sign s (if x0\<^sup>2 * v = u then x0 else x0 * fe_val ed_sqrtm1)
        in Some (1, h\<lparr>ge_p3.Y := hY, ge_p3.Z := fe_1, ge_p3.X := fe_of_gf x,
                        ge_p3.T := fe_of_gf (x * y)\<rparr>))
     else Some (0, h\<lparr>ge_p3.Y := hY, ge_p3.Z := fe_1, ge_p3.X := fe_of_gf x0\<rparr>))"
proof -
  have fb: "fe_frombytes s = Some hY"
    unfolding hY by (rule fe_frombytes_eq [OF len])
  have tY [simp]: "tight hY"
    by (simp add: hY tight_def tight_limbs_of_nat)
  have vY [simp]: "fe_val hY = decode_y s"
    by (simp add: hY fe_val_def decode_y_def limbs_val_limbs_of_nat)
  show ?thesis
    using y u v x0
    by (simp add: x25519_ge_frombytes_vartime_def fb Let_def fe_canonical fe_pow22523_canonical
      fe_isnonzero_iff fe_isnegative_val uint_top_bit decode_fix_sign_def decode_sign_def)
qed

lemma decode_result:
  assumes "length s = 32"
  shows "x25519_ge_frombytes_vartime h s =
    (if decode_ok s then
       Some (1, h\<lparr>ge_p3.Y := decode_Y s, ge_p3.Z := fe_1, ge_p3.X := fe_of_gf (decode_x s),
                     ge_p3.T := fe_of_gf (decode_x s * decode_y s)\<rparr>)
     else Some (0, h\<lparr>ge_p3.Y := decode_Y s, ge_p3.Z := fe_1,
                     ge_p3.X := fe_of_gf (decode_candidate s)\<rparr>))"
proof -
  have v: "(decode_y s)\<^sup>2 * fe_val ed_d + 1 = decode_v s"
    by (simp add: decode_v_def gf_d_def mult.commute)
  have u: "(decode_y s)\<^sup>2 - 1 = decode_u s"
    by (simp add: decode_u_def)
  have c: "((((decode_v s)\<^sup>2 * decode_v s)\<^sup>2 * decode_v s) * decode_u s) ^ (2 ^ 252 - 3)
            * ((decode_v s)\<^sup>2 * decode_v s) * decode_u s = decode_candidate s"
    unfolding decode_candidate_def p58 by (rule candidate_eq)
  have ok: "decode_ok s = ((decode_candidate s)\<^sup>2 * decode_v s = decode_u s
                          \<or> (decode_candidate s)\<^sup>2 * decode_v s + decode_u s = 0)"
    by (simp add: decode_ok_def mult.commute eq_neg_iff_add_eq_0)
  show ?thesis
    unfolding decode_raw [OF assms refl u v c refl]
    by (simp add: ok decode_x_def decode_Y_def gf_sqrtm1_def Let_def mult.commute)
qed

lemma decode_on_curve:
  assumes "decode_ok s"
  shows "- (decode_x s)\<^sup>2 + (decode_y s)\<^sup>2 = 1 + gf_d * (decode_x s)\<^sup>2 * (decode_y s)\<^sup>2"
proof -
  define x1 where "x1 = (if decode_v s * (decode_candidate s)\<^sup>2 = decode_u s
      then decode_candidate s else decode_candidate s * gf_sqrtm1)"
  have "decode_v s * x1\<^sup>2 = decode_u s"
  proof (cases "decode_v s * (decode_candidate s)\<^sup>2 = decode_u s")
    case True
    then show ?thesis by (simp add: x1_def)
  next
    case False
    then have "decode_v s * (decode_candidate s)\<^sup>2 = - decode_u s"
      using assms by (simp add: decode_ok_def)
    then have "decode_v s * (decode_candidate s)\<^sup>2 * gf_sqrtm1\<^sup>2 = decode_u s"
      by (simp add: gf_sqrtm1_sq)
    then show ?thesis
      using False by (simp add: x1_def power_mult_distrib mult.assoc)
  qed
  moreover have "(decode_x s)\<^sup>2 = x1\<^sup>2"
    by (simp add: decode_x_def decode_fix_sign_def x1_def)
  ultimately have "(gf_d * (decode_y s)\<^sup>2 + 1) * (decode_x s)\<^sup>2 = (decode_y s)\<^sup>2 - 1"
    by (simp add: decode_v_def decode_u_def)
  then show ?thesis
    by (simp add: algebra_simps)
qed

lemma length_enc_one: "length enc_one = 32"
  by (simp add: enc_one_def)

lemma decode_y_enc_one: "decode_y enc_one = 1"
  by (simp add: decode_y_def enc_one_def)

lemma decode_ok_enc_one: "decode_ok enc_one"
  by (simp add: decode_ok_def decode_candidate_def decode_u_def decode_y_enc_one)

lemma decode_enc_one:
  "x25519_ge_frombytes_vartime h enc_one =
     Some (1, h\<lparr>ge_p3.Y := decode_Y enc_one, ge_p3.Z := fe_1,
                   ge_p3.X := fe_of_gf (decode_x enc_one),
                   ge_p3.T := fe_of_gf (decode_x enc_one * decode_y enc_one)\<rparr>)"
  by (simp add: decode_result [OF length_enc_one] decode_ok_enc_one)

text \<open>
  Claim C2 (point decode). For every 32-byte input \<open>s\<close>, \<open>x25519_ge_frombytes_vartime\<close> reads
  \<open>y\<close> from the low 255 bits (\<open>decode_y\<close>) and the sign from bit 7 of byte 31 (\<open>decode_sign\<close>),
  forms \<open>u = y\<^sup>2 - 1\<close>, \<open>v = d y\<^sup>2 + 1\<close> and the candidate
  \<open>x = (u v\<^sup>3) (u v\<^sup>7) ^ ((p - 5) / 8)\<close>, returns 1 exactly when \<open>v x\<^sup>2\<close> is \<open>u\<close> or \<open>- u\<close> (with
  \<open>x\<close> multiplied by \<open>sqrtm1\<close> in the second case) and 0 otherwise, negates \<open>x\<close> when its low
  bit differs from the sign bit, sets \<open>Z = 1\<close> and \<open>T = X Y\<close>, and on success the point lies
  on the curve.
\<close>

theorem ge_frombytes_decode:
  assumes "length s = 32"
  shows "x25519_ge_frombytes_vartime h s =
    (if decode_ok s then
       Some (1, h\<lparr>ge_p3.Y := decode_Y s, ge_p3.Z := fe_1, ge_p3.X := fe_of_gf (decode_x s),
                     ge_p3.T := fe_of_gf (decode_x s * decode_y s)\<rparr>)
     else Some (0, h\<lparr>ge_p3.Y := decode_Y s, ge_p3.Z := fe_1,
                     ge_p3.X := fe_of_gf (decode_candidate s)\<rparr>))
    \<and> fe_val (decode_Y s) = decode_y s
    \<and> (decode_ok s \<longrightarrow>
         - (decode_x s)\<^sup>2 + (decode_y s)\<^sup>2 = 1 + gf_d * (decode_x s)\<^sup>2 * (decode_y s)\<^sup>2)"
proof -
  have "fe_val (decode_Y s) = decode_y s"
    by (simp add: decode_Y_def fe_val_def decode_y_def limbs_val_limbs_of_nat)
  then show ?thesis
    using decode_result [OF assms, of h] decode_on_curve [of s] by simp
qed

theorem ge_frombytes_decode_witness:
  "length enc_one = 32 \<and> decode_ok enc_one
   \<and> x25519_ge_frombytes_vartime ge_p3_0 enc_one =
       Some (1, ge_p3_0\<lparr>ge_p3.Y := decode_Y enc_one, ge_p3.Z := fe_1,
                          ge_p3.X := fe_of_gf (decode_x enc_one),
                          ge_p3.T := fe_of_gf (decode_x enc_one * decode_y enc_one)\<rparr>)
   \<and> - (decode_x enc_one)\<^sup>2 + (decode_y enc_one)\<^sup>2
       = 1 + gf_d * (decode_x enc_one)\<^sup>2 * (decode_y enc_one)\<^sup>2"
  using ge_frombytes_decode [OF length_enc_one, of ge_p3_0] decode_ok_enc_one length_enc_one
  by simp

text \<open>
  Claim C9 (decode postcondition). Whenever \<open>x25519_ge_frombytes_vartime\<close> returns 1, the
  output point has \<open>Z\<close> equal to the field element \<open>fe_1\<close> and satisfies \<open>X * Y = Z * T\<close>.
\<close>

theorem ge_frombytes_post:
  assumes "length s = 32" and "x25519_ge_frombytes_vartime h s = Some (1, h')"
  shows "ge_p3.Z h' = fe_1
         \<and> fe_val (ge_p3.X h') * fe_val (ge_p3.Y h') = fe_val (ge_p3.Z h') * fe_val (ge_p3.T h')"
proof -
  have "fe_val (decode_Y s) = decode_y s"
    by (simp add: decode_Y_def fe_val_def decode_y_def limbs_val_limbs_of_nat)
  then show ?thesis
    using assms(2) unfolding decode_result [OF assms(1)]
    by (auto split: if_splits)
qed

theorem ge_frombytes_post_witness:
  "length enc_one = 32
   \<and> x25519_ge_frombytes_vartime ge_p3_0 enc_one =
       Some (1, ge_p3_0\<lparr>ge_p3.Y := decode_Y enc_one, ge_p3.Z := fe_1,
                          ge_p3.X := fe_of_gf (decode_x enc_one),
                          ge_p3.T := fe_of_gf (decode_x enc_one * decode_y enc_one)\<rparr>)
   \<and> ge_p3.Z (ge_p3_0\<lparr>ge_p3.Y := decode_Y enc_one, ge_p3.Z := fe_1,
                          ge_p3.X := fe_of_gf (decode_x enc_one),
                          ge_p3.T := fe_of_gf (decode_x enc_one * decode_y enc_one)\<rparr>) = fe_1"
  using ge_frombytes_post [OF length_enc_one decode_enc_one [of ge_p3_0]] length_enc_one
    decode_enc_one [of ge_p3_0]
  by simp

end
